theory Spec2Isabelle
  imports Complex_Main "HOL-Library.Multiset" "HOL-Library.Word" "HOL-Library.Product_Lexorder"
begin

section \<open>Data model (src/main.cpp, lines 12-29 and 39-46)\<close>

subsection \<open>The numbers of the source\<close>

text \<open>
  \<^verbatim>\<open>limitPrice\<close> is a C++ \<^verbatim>\<open>double\<close>. The engine never computes with a
  price: it compares prices, copies them and prints them. So a \<open>double\<close> is modelled
  by its value: a number, one of the two infinities, or NaN, which \<^verbatim>\<open>std::stod\<close>
  returns for the tokens \<^verbatim>\<open>nan\<close> and \<^verbatim>\<open>inf\<close>. Every finite double is a rational
  number; the two zeros of the format compare equal and are the one value
  \<open>Finite 0\<close>. The comparisons are those of IEEE 754: with NaN on either side
  \<^verbatim>\<open><\<close>, \<^verbatim>\<open>>\<close> and \<^verbatim>\<open>>=\<close> are false and \<^verbatim>\<open>!=\<close> is true.
\<close>

datatype double = NaN | NegInf | Finite rat | PosInf

fun less_double :: "double \<Rightarrow> double \<Rightarrow> bool" where
  "less_double (Finite a) (Finite b) = (a < b)"
| "less_double NegInf (Finite b) = True"
| "less_double NegInf PosInf = True"
| "less_double (Finite a) PosInf = True"
| "less_double _ _ = False"

definition greater_double :: "double \<Rightarrow> double \<Rightarrow> bool" where
  "greater_double a b = less_double b a"

definition ne_double :: "double \<Rightarrow> double \<Rightarrow> bool" where
  "ne_double a b = (a = NaN \<or> b = NaN \<or> a \<noteq> b)"

definition ge_double :: "double \<Rightarrow> double \<Rightarrow> bool" where
  "ge_double a b = (a \<noteq> NaN \<and> b \<noteq> NaN \<and> \<not> less_double a b)"

definition le_double :: "double \<Rightarrow> double \<Rightarrow> bool" where
  "le_double a b = ge_double b a"

text \<open>
  The place of a double that is not NaN in the order of the doubles, as a pair
  compared lexicographically; it serves the proofs only.
\<close>

fun rank :: "double \<Rightarrow> int \<times> rat" where
  "rank NegInf = (- 1, 0)"
| "rank (Finite a) = (0, a)"
| "rank PosInf = (1, 0)"
| "rank NaN = (2, 0)"

text \<open>
  \<^verbatim>\<open>quantity\<close> is a C++ \<^verbatim>\<open>int\<close>, of 32 bits: a word that \<open>sint\<close> reads in
  two's complement. The only arithmetic on quantities is \<^verbatim>\<open>std::min\<close> and the
  subtraction \<^verbatim>\<open>quantity -= tradedQuantity\<close>. The C++ standard leaves the overflow
  of that subtraction undefined; the model takes the wrap-around of the machine, which
  is the subtraction of words. \<^verbatim>\<open>std::min(a, b)\<close> is \<^verbatim>\<open>b < a ? b : a\<close>.
\<close>

type_synonym int32 = "32 word"

definition min_int32 :: "int32 \<Rightarrow> int32 \<Rightarrow> int32" where
  "min_int32 a b = (if sint b < sint a then b else a)"

subsection \<open>Orders\<close>

text \<open>
  \<^verbatim>\<open>struct Order\<close>. The field \<^verbatim>\<open>id\<close> is called \<open>id_order\<close> here, since \<open>id\<close> is
  the identity function of HOL. \<^verbatim>\<open>type\<close> stays a character: the code tests it
  against \<^verbatim>\<open>'B'\<close> only and treats every other character as a sell order.
  \<^verbatim>\<open>timestamp\<close> is the number of the input line; the code compares timestamps and
  never computes with them, and the counter of \<^verbatim>\<open>main\<close> stays an \<^verbatim>\<open>int\<close> for
  every input of fewer than \<open>2 ^ 31\<close> lines, so a timestamp is an integer.
\<close>

record Order =
  id_order :: string
  type :: char
  quantity :: int32
  limitPrice :: double
  isMarketOrder :: bool
  timestamp :: int

text \<open>\<^verbatim>\<open>Order::operator<\<close> (lines 21-28). The branch is chosen by the type of the
  left operand alone.\<close>

definition operator_less :: "Order \<Rightarrow> Order \<Rightarrow> bool" where
  "operator_less this other =
     (if type this = CHR ''B''
      then (if ne_double (limitPrice this) (limitPrice other)
            then less_double (limitPrice this) (limitPrice other)
            else timestamp this > timestamp other)
      else (if ne_double (limitPrice this) (limitPrice other)
            then greater_double (limitPrice this) (limitPrice other)
            else timestamp this > timestamp other))"

subsection \<open>The priority queue of the standard library\<close>

text \<open>
  \<^verbatim>\<open>std::priority_queue<Order>\<close> is library code. The C++ standard fixes its
  behaviour up to the choice among equivalent elements: \<^verbatim>\<open>top()\<close> is an element
  that is not \<^verbatim>\<open>operator<\<close>-smaller than any other element, \<^verbatim>\<open>pop()\<close> removes
  that element, \<^verbatim>\<open>push(x)\<close> adds \<open>x\<close>. The model keeps the elements in a list in
  the order of their insertion; \<open>top_pq\<close> scans the list as a maximum search does and
  keeps the earliest inserted one among equivalent elements (two orders are equivalent
  only when they agree on price and timestamp). With a NaN price \<^verbatim>\<open>operator<\<close> is
  no ordering any more, and what the heap of the library then has on top depends on the
  order of the pushes; for one or two elements it is what the scan gives: the first
  element pushed, unless it is \<^verbatim>\<open>operator<\<close>-smaller than the second.

  \<^verbatim>\<open>top()\<close> and \<^verbatim>\<open>pop()\<close> of an
  empty queue are undefined in C++; the source guards every call by \<^verbatim>\<open>empty()\<close>,
  and the model makes the empty case explicit: \<open>top_pq\<close> answers \<open>None\<close> exactly
  when \<^verbatim>\<open>empty()\<close> holds (lemma \<open>empty_pq_iff\<close>), so a loop guarded by
  \<^verbatim>\<open>!q.empty()\<close> is a case distinction on \<open>top_pq q\<close>.
\<close>

type_synonym priority_queue = "Order list"

definition empty_pq :: "priority_queue \<Rightarrow> bool" where
  "empty_pq q = (q = [])"

definition push_pq :: "Order \<Rightarrow> priority_queue \<Rightarrow> priority_queue" where
  "push_pq x q = q @ [x]"

fun top_from :: "Order \<Rightarrow> Order list \<Rightarrow> Order" where
  "top_from m [] = m"
| "top_from m (y # ys) = top_from (if operator_less m y then y else m) ys"

fun top_pq :: "priority_queue \<Rightarrow> Order option" where
  "top_pq [] = None"
| "top_pq (x # xs) = Some (top_from x xs)"

definition pop_pq :: "priority_queue \<Rightarrow> priority_queue" where
  "pop_pq q = (case top_pq q of None \<Rightarrow> q | Some m \<Rightarrow> remove1 m q)"

subsection \<open>The order book\<close>

text \<open>\<^verbatim>\<open>class OrderBook\<close> (lines 39-46): the two queues and the last traded price.\<close>

record OrderBook =
  buyOrders :: priority_queue
  sellOrders :: priority_queue
  lastTradedPrice :: double

text \<open>The constructor \<^verbatim>\<open>OrderBook(double initialPrice)\<close>.\<close>

definition new_OrderBook :: "double \<Rightarrow> OrderBook" where
  "new_OrderBook initialPrice =
     \<lparr>buyOrders = [], sellOrders = [], lastTradedPrice = initialPrice\<rparr>"

text \<open>
  The lines written to the output file, as structured records: the order id, the
  number of shares as it is printed (the value of the \<^verbatim>\<open>int\<close>) and, for a trade,
  the execution price (the source prints the price with two decimals; the formatting
  of a double is not modelled).
\<close>

datatype output_line =
    Purchased string int double
  | Sold string int double
  | Unexecuted string int

section \<open>Operations of the order book\<close>

text \<open>\<^verbatim>\<open>OrderBook::addOrder\<close> (lines 49-55).\<close>

definition addOrder :: "OrderBook \<Rightarrow> Order \<Rightarrow> OrderBook" where
  "addOrder bk ord =
     (if type ord = CHR ''B''
      then bk\<lparr>buyOrders := push_pq ord (buyOrders bk)\<rparr>
      else bk\<lparr>sellOrders := push_pq ord (sellOrders bk)\<rparr>)"

text \<open>\<^verbatim>\<open>OrderBook::canMatch\<close> (lines 126-128).\<close>

definition canMatch :: "Order \<Rightarrow> Order \<Rightarrow> bool" where
  "canMatch buy sell =
     (isMarketOrder buy \<or> isMarketOrder sell
      \<or> ge_double (limitPrice buy) (limitPrice sell))"

text \<open>\<^verbatim>\<open>OrderBook::determinePrice\<close> (lines 131-138); it reads the member
  \<^verbatim>\<open>lastTradedPrice\<close>.\<close>

definition determinePrice :: "OrderBook \<Rightarrow> Order \<Rightarrow> Order \<Rightarrow> double" where
  "determinePrice bk buy sell =
     (if \<not> isMarketOrder buy \<and> \<not> isMarketOrder sell
      then (if timestamp buy < timestamp sell then limitPrice buy else limitPrice sell)
      else if \<not> isMarketOrder buy then limitPrice buy
      else if \<not> isMarketOrder sell then limitPrice sell
      else lastTradedPrice bk)"

text \<open>
  The body of the \<^verbatim>\<open>while\<close> loop of \<^verbatim>\<open>matchOrders\<close> after the \<^verbatim>\<open>break\<close> test
  (lines 65-87), for the two orders \<open>buy\<close> and \<open>sell\<close> read from the tops: both are
  popped, the trade is written, and an order with shares left is pushed again with
  the reduced quantity. The result is the pair of the two lines written and the book
  after the iteration.
\<close>

definition execute_pair :: "OrderBook \<Rightarrow> Order \<Rightarrow> Order \<Rightarrow> output_line list \<times> OrderBook" where
  "execute_pair bk buy sell =
     (let buys = pop_pq (buyOrders bk);
          sells = pop_pq (sellOrders bk);
          tradedQuantity = min_int32 (quantity buy) (quantity sell);
          executionPrice = determinePrice bk buy sell;
          buys' = (if sint (quantity buy) > sint tradedQuantity
                   then push_pq (buy\<lparr>quantity := quantity buy - tradedQuantity\<rparr>) buys
                   else buys);
          sells' = (if sint (quantity sell) > sint tradedQuantity
                    then push_pq (sell\<lparr>quantity := quantity sell - tradedQuantity\<rparr>) sells
                    else sells)
      in ([Purchased (id_order buy) (sint tradedQuantity) executionPrice,
           Sold (id_order sell) (sint tradedQuantity) executionPrice],
          \<lparr>buyOrders = buys', sellOrders = sells', lastTradedPrice = executionPrice\<rparr>))"

text \<open>
  One pass through the loop (lines 59-88). \<open>None\<close> is the exit of the loop: one of
  the queues is empty (the loop condition) or the tops cannot match (the
  \<^verbatim>\<open>break\<close>); the book is then left as it is.
\<close>

definition sweep_step :: "OrderBook \<Rightarrow> (output_line list \<times> OrderBook) option" where
  "sweep_step bk =
     (case top_pq (buyOrders bk) of
        None \<Rightarrow> None
      | Some buy \<Rightarrow>
          (case top_pq (sellOrders bk) of
             None \<Rightarrow> None
           | Some sell \<Rightarrow>
               if \<not> canMatch buy sell then None
               else Some (execute_pair bk buy sell)))"

text \<open>The number of resting orders; every pass of the loop lowers it.\<close>

definition resting :: "OrderBook \<Rightarrow> nat" where
  "resting bk = length (buyOrders bk) + length (sellOrders bk)"

lemma top_from_mem: "top_from m ys \<in> set (m # ys)"
  by (induction ys arbitrary: m) auto

lemma top_pq_mem: "top_pq q = Some t \<Longrightarrow> t \<in> set q"
  using top_from_mem by (cases q) auto

lemma top_pq_None_iff: "top_pq q = None \<longleftrightarrow> q = []"
  by (cases q) auto

lemma empty_pq_iff: "empty_pq q \<longleftrightarrow> top_pq q = None"
  by (simp add: empty_pq_def top_pq_None_iff)

lemma length_pop_pq: "q \<noteq> [] \<Longrightarrow> Suc (length (pop_pq q)) = length q"
proof -
  assume ne: "q \<noteq> []"
  then obtain t where t: "top_pq q = Some t"
    by (cases q) auto
  then have "t \<in> set q" by (rule top_pq_mem)
  then have "length (remove1 t q) = length q - 1"
    by (simp add: length_remove1)
  with t ne show ?thesis
    by (cases q) (auto simp: pop_pq_def)
qed

lemma length_push_pq: "length (push_pq x q) = Suc (length q)"
  by (simp add: push_pq_def)

lemma execute_pair_resting:
  assumes "buyOrders bk \<noteq> []" and "sellOrders bk \<noteq> []"
  shows "resting (snd (execute_pair bk buy sell)) < resting bk"
proof -
  from assms have b: "Suc (length (pop_pq (buyOrders bk))) = length (buyOrders bk)"
    and s: "Suc (length (pop_pq (sellOrders bk))) = length (sellOrders bk)"
    by (simp_all add: length_pop_pq)
  have "\<not> (sint (quantity buy) > sint (min_int32 (quantity buy) (quantity sell))
          \<and> sint (quantity sell) > sint (min_int32 (quantity buy) (quantity sell)))"
    by (simp add: min_int32_def)
  with b s show ?thesis
    by (auto simp: execute_pair_def resting_def Let_def length_push_pq)
qed

lemma sweep_step_resting:
  assumes "sweep_step bk = Some (out, bk')"
  shows "resting bk' < resting bk"
proof -
  from assms obtain buy sell where
    tb: "top_pq (buyOrders bk) = Some buy" and ts: "top_pq (sellOrders bk) = Some sell"
    and ex: "execute_pair bk buy sell = (out, bk')"
    by (auto simp: sweep_step_def split: option.splits if_splits)
  from tb ts have "buyOrders bk \<noteq> []" "sellOrders bk \<noteq> []"
    by auto
  then have "resting (snd (execute_pair bk buy sell)) < resting bk"
    by (rule execute_pair_resting)
  with ex show ?thesis by simp
qed

text \<open>
  \<^verbatim>\<open>OrderBook::matchOrders\<close> (lines 58-89): the loop runs \<open>sweep_step\<close> until it
  exits. The result is the list of lines written during the call and the book after
  it.
\<close>

function matchOrders :: "OrderBook \<Rightarrow> output_line list \<times> OrderBook" where
  "matchOrders bk =
     (case sweep_step bk of
        None \<Rightarrow> ([], bk)
      | Some (out, bk') \<Rightarrow>
          (case matchOrders bk' of (out', bk'') \<Rightarrow> (out @ out', bk'')))"
  by pat_completeness auto
termination
  by (relation "measure resting") (auto simp: sweep_step_resting)

declare matchOrders.simps [simp del]

text \<open>
  The same loop with a counter of the passes that it may still make: \<open>None\<close> when
  the counter runs out before the loop exits. This definition does not rest on the
  termination proof above.
\<close>

fun matchOrders_fuel :: "nat \<Rightarrow> OrderBook \<Rightarrow> (output_line list \<times> OrderBook) option" where
  "matchOrders_fuel 0 bk = None"
| "matchOrders_fuel (Suc n) bk =
     (case sweep_step bk of
        None \<Rightarrow> Some ([], bk)
      | Some (out, bk') \<Rightarrow>
          (case matchOrders_fuel n bk' of
             None \<Rightarrow> None
           | Some (out', bk'') \<Rightarrow> Some (out @ out', bk'')))"

subsection \<open>The report of the unexecuted orders\<close>

text \<open>
  \<^verbatim>\<open>OrderBook::writeUnexecutedOrders\<close> (lines 100-122) works on local variables:
  the vector \<^verbatim>\<open>unexecutedOrders\<close> and the copies \<^verbatim>\<open>remainingBuyOrders\<close> and
  \<^verbatim>\<open>remainingSellOrders\<close> of the two queues. The state of the method is the book
  (\<^verbatim>\<open>*this\<close>) together with these locals; each statement is a function on it.
\<close>

record report_state =
  book :: OrderBook
  unexecutedOrders :: "Order list"
  remainingBuyOrders :: priority_queue
  remainingSellOrders :: priority_queue

lemma length_pop_pq_less: "top_pq q = Some t \<Longrightarrow> length (pop_pq q) < length q"
  using length_pop_pq [of q] by (cases q) auto

text \<open>The first \<^verbatim>\<open>while\<close> loop (lines 105-108).\<close>

function drain_buys :: "report_state \<Rightarrow> report_state" where
  "drain_buys s =
     (case top_pq (remainingBuyOrders s) of
        None \<Rightarrow> s
      | Some t \<Rightarrow>
          drain_buys (s\<lparr>unexecutedOrders := unexecutedOrders s @ [t],
                        remainingBuyOrders := pop_pq (remainingBuyOrders s)\<rparr>))"
  by pat_completeness auto
termination
  by (relation "measure (\<lambda>s. length (remainingBuyOrders s))")
     (auto simp: length_pop_pq_less)

declare drain_buys.simps [simp del]

text \<open>The second \<^verbatim>\<open>while\<close> loop (lines 111-114).\<close>

function drain_sells :: "report_state \<Rightarrow> report_state" where
  "drain_sells s =
     (case top_pq (remainingSellOrders s) of
        None \<Rightarrow> s
      | Some t \<Rightarrow>
          drain_sells (s\<lparr>unexecutedOrders := unexecutedOrders s @ [t],
                         remainingSellOrders := pop_pq (remainingSellOrders s)\<rparr>))"
  by pat_completeness auto
termination
  by (relation "measure (\<lambda>s. length (remainingSellOrders s))")
     (auto simp: length_pop_pq_less)

declare drain_sells.simps [simp del]

text \<open>
  The statements of the method up to the output loop: the two copies, the two
  drains and \<^verbatim>\<open>std::sort\<close> by \<^verbatim>\<open>timestamp\<close>. \<^verbatim>\<open>std::sort\<close> is library code
  and leaves the order of elements with equal keys open; the model sorts with
  \<open>sort_key\<close>, which keeps them in their order.
\<close>

definition collect_unexecuted :: "OrderBook \<Rightarrow> report_state" where
  "collect_unexecuted bk =
     (let s0 = \<lparr>book = bk, unexecutedOrders = [],
                remainingBuyOrders = buyOrders bk, remainingSellOrders = []\<rparr>;
          s1 = drain_buys s0;
          s2 = s1\<lparr>remainingSellOrders := sellOrders (book s1)\<rparr>;
          s3 = drain_sells s2
      in s3\<lparr>unexecutedOrders := sort_key timestamp (unexecutedOrders s3)\<rparr>)"

text \<open>The line written for one order (line 120).\<close>

definition unexecuted_line :: "Order \<Rightarrow> output_line" where
  "unexecuted_line order = Unexecuted (id_order order) (sint (quantity order))"

text \<open>\<^verbatim>\<open>writeUnexecutedOrders\<close>: the book after the call and the lines written.\<close>

definition writeUnexecutedOrders :: "OrderBook \<Rightarrow> OrderBook \<times> output_line list" where
  "writeUnexecutedOrders bk =
     (let s = collect_unexecuted bk
      in (book s, map unexecuted_line (unexecutedOrders s)))"

section \<open>Reading the input (lines 184-199 and 224-251)\<close>

text \<open>
  \<^verbatim>\<open>parseOrder\<close> reads a line with the stream operators and \<^verbatim>\<open>std::stod\<close>,
  which are library code. The model starts from what they deliver: the values read
  into \<^verbatim>\<open>id\<close>, \<^verbatim>\<open>type\<close> and \<^verbatim>\<open>quantity\<close> (whatever they are), and the outcome of
  reading a fourth token: none (\<^verbatim>\<open>iss >> limitPriceStr\<close> fails), a token that
  \<^verbatim>\<open>std::stod\<close> converts to a double (a number, an infinity for \<^verbatim>\<open>inf\<close>, NaN
  for \<^verbatim>\<open>nan\<close>), or a token at which \<^verbatim>\<open>std::stod\<close> throws.
\<close>

datatype price_token = No_token | Price double | Bad_token

record input_line =
  line_id :: string
  line_type :: char
  line_quantity :: int32
  line_price :: price_token

datatype error = Stod_exception

definition parseOrder :: "input_line \<Rightarrow> int \<Rightarrow> error + Order" where
  "parseOrder line ts =
     (case line_price line of
        Price p \<Rightarrow>
          Inr \<lparr>id_order = line_id line, type = line_type line,
               quantity = line_quantity line, limitPrice = p,
               isMarketOrder = False, timestamp = ts\<rparr>
      | Bad_token \<Rightarrow> Inl Stod_exception
      | No_token \<Rightarrow>
          Inr \<lparr>id_order = line_id line, type = line_type line,
               quantity = line_quantity line, limitPrice = Finite 0,
               isMarketOrder = True, timestamp = ts\<rparr>)"

text \<open>
  What the spec calls \<open>submit\<close>: the two calls \<^verbatim>\<open>addOrder\<close> and
  \<^verbatim>\<open>matchOrders\<close> that \<^verbatim>\<open>main\<close> makes for every line (lines 238 and 243).
\<close>

definition submit :: "OrderBook \<Rightarrow> Order \<Rightarrow> output_line list \<times> OrderBook" where
  "submit bk ord = matchOrders (addOrder bk ord)"

text \<open>
  The loop of \<^verbatim>\<open>main\<close> over the lines (lines 234-247): \<open>ts\<close> is the counter
  \<^verbatim>\<open>timestamp\<close> before the line is read. An exception of \<^verbatim>\<open>std::stod\<close> is not
  caught and ends the program.
\<close>

fun process_lines :: "OrderBook \<Rightarrow> int \<Rightarrow> input_line list \<Rightarrow> error + (output_line list \<times> OrderBook)" where
  "process_lines bk ts [] = Inr ([], bk)"
| "process_lines bk ts (line # rest) =
     (case parseOrder line (ts + 1) of
        Inl e \<Rightarrow> Inl e
      | Inr ord \<Rightarrow>
          (case submit bk ord of
             (out, bk') \<Rightarrow>
               (case process_lines bk' (ts + 1) rest of
                  Inl e \<Rightarrow> Inl e
                | Inr (out', bk'') \<Rightarrow> Inr (out @ out', bk''))))"

text \<open>\<^verbatim>\<open>main\<close> from line 224 on: the whole content of the output file.\<close>

definition main :: "double \<Rightarrow> input_line list \<Rightarrow> error + output_line list" where
  "main initialPrice lines =
     (case process_lines (new_OrderBook initialPrice) 0 lines of
        Inl e \<Rightarrow> Inl e
      | Inr (out, bk) \<Rightarrow> Inr (out @ snd (writeUnexecutedOrders bk)))"

section \<open>Quantities read from the output and from the book\<close>

text \<open>
  The number of shares that the trade lines of an output credit to the order id \<open>i\<close>
  (a purchase and a sale count alike), the number of shares that its unexecuted lines
  report for \<open>i\<close>, and the number of unexecuted lines for \<open>i\<close>.
\<close>

fun traded_in :: "string \<Rightarrow> output_line \<Rightarrow> int" where
  "traded_in i (Purchased j q p) = (if j = i then q else 0)"
| "traded_in i (Sold j q p) = (if j = i then q else 0)"
| "traded_in i (Unexecuted j q) = 0"

definition traded_quantity :: "string \<Rightarrow> output_line list \<Rightarrow> int" where
  "traded_quantity i out = sum_list (map (traded_in i) out)"

fun unexecuted_in :: "string \<Rightarrow> output_line \<Rightarrow> int" where
  "unexecuted_in i (Unexecuted j q) = (if j = i then q else 0)"
| "unexecuted_in i (Purchased j q p) = 0"
| "unexecuted_in i (Sold j q p) = 0"

definition unexecuted_quantity :: "string \<Rightarrow> output_line list \<Rightarrow> int" where
  "unexecuted_quantity i out = sum_list (map (unexecuted_in i) out)"

fun is_unexecuted_of :: "string \<Rightarrow> output_line \<Rightarrow> bool" where
  "is_unexecuted_of i (Unexecuted j q) = (j = i)"
| "is_unexecuted_of i (Purchased j q p) = False"
| "is_unexecuted_of i (Sold j q p) = False"

definition unexecuted_lines :: "string \<Rightarrow> output_line list \<Rightarrow> nat" where
  "unexecuted_lines i out = length (filter (is_unexecuted_of i) out)"

text \<open>
  The shares of the orders with id \<open>i\<close> that rest in a book, the shares submitted
  under \<open>i\<close> by a list of input lines, and the ids of the orders resting in a book.
\<close>

definition quantity_of :: "string \<Rightarrow> Order \<Rightarrow> int" where
  "quantity_of i ord = (if id_order ord = i then sint (quantity ord) else 0)"

definition resting_quantity :: "string \<Rightarrow> OrderBook \<Rightarrow> int" where
  "resting_quantity i bk =
     sum_list (map (quantity_of i) (buyOrders bk)) + sum_list (map (quantity_of i) (sellOrders bk))"

definition submitted_quantity :: "string \<Rightarrow> input_line list \<Rightarrow> int" where
  "submitted_quantity i lines =
     sum_list (map (\<lambda>l. if line_id l = i then sint (line_quantity l) else 0) lines)"

definition resting_ids :: "OrderBook \<Rightarrow> string multiset" where
  "resting_ids bk = mset (map id_order (buyOrders bk)) + mset (map id_order (sellOrders bk))"

text \<open>
  What holds of every book that the program reaches (lemma
  \<open>reachable_book_invariant\<close> below): the buy queue holds orders of type \<^verbatim>\<open>'B'\<close>
  only, the sell queue none of them, and every market order has limit price 0.
\<close>

definition book_invariant :: "OrderBook \<Rightarrow> bool" where
  "book_invariant bk =
     ((\<forall>x\<in>set (buyOrders bk). type x = CHR ''B'')
      \<and> (\<forall>x\<in>set (sellOrders bk). type x \<noteq> CHR ''B'')
      \<and> (\<forall>x\<in>set (buyOrders bk @ sellOrders bk).
            isMarketOrder x \<longrightarrow> limitPrice x = Finite 0))"

text \<open>
  No resting order has a negative quantity. The sweep keeps this, and then none of its
  subtractions wraps around (lemma \<open>execute_pair_nonneg\<close> below).
\<close>

definition nonneg_book :: "OrderBook \<Rightarrow> bool" where
  "nonneg_book bk = (\<forall>x\<in>set (buyOrders bk @ sellOrders bk). 0 \<le> sint (quantity x))"

section \<open>Example inputs\<close>

text \<open>
  The first example of the spec: seed price 100.00, then \<^verbatim>\<open>O1 B 10 101.00\<close> and
  \<^verbatim>\<open>O2 S 5 99.00\<close>. \<open>example_book\<close> is the book after \<^verbatim>\<open>addOrder\<close> of the second
  order and before the sweep.
\<close>

definition O1 :: Order where
  "O1 = \<lparr>id_order = ''O1'', type = CHR ''B'', quantity = 10, limitPrice = Finite 101,
          isMarketOrder = False, timestamp = 1\<rparr>"

definition O2 :: Order where
  "O2 = \<lparr>id_order = ''O2'', type = CHR ''S'', quantity = 5, limitPrice = Finite 99,
          isMarketOrder = False, timestamp = 2\<rparr>"

definition example_book :: OrderBook where
  "example_book = \<lparr>buyOrders = [O1], sellOrders = [O2], lastTradedPrice = Finite 100\<rparr>"

text \<open>The two input lines of the first example.\<close>

definition line_O1 :: input_line where
  "line_O1 = \<lparr>line_id = ''O1'', line_type = CHR ''B'', line_quantity = 10,
               line_price = Price (Finite 101)\<rparr>"

definition line_O2 :: input_line where
  "line_O2 = \<lparr>line_id = ''O2'', line_type = CHR ''S'', line_quantity = 5,
               line_price = Price (Finite 99)\<rparr>"

text \<open>Two orders that the spec wants rejected.\<close>

definition zero_quantity_order :: Order where
  "zero_quantity_order =
     \<lparr>id_order = ''Z1'', type = CHR ''B'', quantity = 0, limitPrice = Finite 101,
      isMarketOrder = False, timestamp = 1\<rparr>"

definition negative_price_order :: Order where
  "negative_price_order =
     \<lparr>id_order = ''N1'', type = CHR ''S'', quantity = 10, limitPrice = Finite (- 1),
      isMarketOrder = False, timestamp = 1\<rparr>"

text \<open>
  A book whose tops do not cross, with a limit buy that arrived after the limit sell.
\<close>

definition O3 :: Order where
  "O3 = \<lparr>id_order = ''O3'', type = CHR ''S'', quantity = 5, limitPrice = Finite 105,
          isMarketOrder = False, timestamp = 2\<rparr>"

definition O4 :: Order where
  "O4 = \<lparr>id_order = ''O4'', type = CHR ''B'', quantity = 7, limitPrice = Finite 100,
          isMarketOrder = False, timestamp = 3\<rparr>"

definition resting_book :: OrderBook where
  "resting_book = \<lparr>buyOrders = [O4], sellOrders = [O3], lastTradedPrice = Finite 100\<rparr>"

text \<open>Market orders as \<^verbatim>\<open>parseOrder\<close> makes them: a line without a fourth token.\<close>

definition market_buy_line :: input_line where
  "market_buy_line =
     \<lparr>line_id = ''M1'', line_type = CHR ''B'', line_quantity = 10, line_price = No_token\<rparr>"

definition market_buy :: Order where
  "market_buy = \<lparr>id_order = ''M1'', type = CHR ''B'', quantity = 10, limitPrice = Finite 0,
          isMarketOrder = True, timestamp = 1\<rparr>"

text \<open>
  Three sell orders in a row, a limit order and two market orders, and the orders that
  \<^verbatim>\<open>parseOrder\<close> makes of them.
\<close>

definition sell_lines :: "input_line list" where
  "sell_lines =
     [\<lparr>line_id = ''S1'', line_type = CHR ''S'', line_quantity = 5, line_price = Price (Finite 105)\<rparr>,
      \<lparr>line_id = ''S2'', line_type = CHR ''S'', line_quantity = 4, line_price = No_token\<rparr>,
      \<lparr>line_id = ''S3'', line_type = CHR ''S'', line_quantity = 10, line_price = No_token\<rparr>]"

definition limit_sell_1 :: Order where
  "limit_sell_1 = \<lparr>id_order = ''S1'', type = CHR ''S'', quantity = 5, limitPrice = Finite 105,
          isMarketOrder = False, timestamp = 1\<rparr>"

definition market_sell_2 :: Order where
  "market_sell_2 = \<lparr>id_order = ''S2'', type = CHR ''S'', quantity = 4, limitPrice = Finite 0,
          isMarketOrder = True, timestamp = 2\<rparr>"

definition market_sell_3 :: Order where
  "market_sell_3 = \<lparr>id_order = ''S3'', type = CHR ''S'', quantity = 10, limitPrice = Finite 0,
          isMarketOrder = True, timestamp = 3\<rparr>"

lemmas example_defs = example_book_def O1_def O2_def resting_book_def O3_def O4_def
  market_buy_line_def market_buy_def

text \<open>
  A buy order with the largest quantity of an \<^verbatim>\<open>int\<close> and a sell order with
  quantity -1, which crosses it.
\<close>

definition overflow_buy_line :: input_line where
  "overflow_buy_line =
     \<lparr>line_id = ''B1'', line_type = CHR ''B'', line_quantity = 2147483647,
      line_price = Price (Finite 100)\<rparr>"

definition overflow_sell_line :: input_line where
  "overflow_sell_line =
     \<lparr>line_id = ''S1'', line_type = CHR ''S'', line_quantity = - 1,
      line_price = Price (Finite 50)\<rparr>"

text \<open>Orders with the price token \<^verbatim>\<open>nan\<close>, and the orders that meet them.\<close>

definition nan_buy :: Order where
  "nan_buy = \<lparr>id_order = ''B1'', type = CHR ''B'', quantity = 10, limitPrice = NaN,
          isMarketOrder = False, timestamp = 1\<rparr>"

definition sell_99 :: Order where
  "sell_99 = \<lparr>id_order = ''S1'', type = CHR ''S'', quantity = 5, limitPrice = Finite 99,
          isMarketOrder = False, timestamp = 2\<rparr>"

definition nan_buy_lines :: "input_line list" where
  "nan_buy_lines =
     [\<lparr>line_id = ''B1'', line_type = CHR ''B'', line_quantity = 10, line_price = Price NaN\<rparr>,
      \<lparr>line_id = ''S1'', line_type = CHR ''S'', line_quantity = 5,
       line_price = Price (Finite 99)\<rparr>]"

definition nan_sell :: Order where
  "nan_sell = \<lparr>id_order = ''N1'', type = CHR ''S'', quantity = 5, limitPrice = NaN,
          isMarketOrder = False, timestamp = 1\<rparr>"

definition sell_100 :: Order where
  "sell_100 = \<lparr>id_order = ''S2'', type = CHR ''S'', quantity = 5, limitPrice = Finite 100,
          isMarketOrder = False, timestamp = 2\<rparr>"

definition nan_sell_lines :: "input_line list" where
  "nan_sell_lines =
     [\<lparr>line_id = ''N1'', line_type = CHR ''S'', line_quantity = 5, line_price = Price NaN\<rparr>,
      \<lparr>line_id = ''S2'', line_type = CHR ''S'', line_quantity = 5,
       line_price = Price (Finite 100)\<rparr>]"

lemmas sell_defs = sell_lines_def limit_sell_1_def market_sell_2_def market_sell_3_def

lemmas nan_defs = nan_buy_def sell_99_def nan_buy_lines_def nan_sell_def sell_100_def
  nan_sell_lines_def

lemmas engine_defs = sweep_step_def canMatch_def execute_pair_def pop_pq_def push_pq_def
  determinePrice_def operator_less_def Let_def min_int32_def ne_double_def
  greater_double_def ge_double_def

section \<open>The clearing sweep\<close>

lemma sweep_step_tops:
  assumes "sweep_step bk = Some (out, bk')"
  obtains buy sell where "top_pq (buyOrders bk) = Some buy"
    and "top_pq (sellOrders bk) = Some sell"
    and "canMatch buy sell" and "execute_pair bk buy sell = (out, bk')"
  using assms by (auto simp: sweep_step_def split: option.splits if_splits)

text \<open>
  Claim C1. In every pass of the sweep that executes a pair, with \<open>B\<close> the top of the
  buy queue and \<open>A\<close> the top of the sell queue, the two lines written carry one price
  \<open>p\<close>, which is also the new \<^verbatim>\<open>lastTradedPrice\<close>. If both orders are limit orders
  \<open>p\<close> is the limit price of the one with the lower timestamp; if exactly one is a
  market order \<open>p\<close> is the limit price of the other; if both are market orders \<open>p\<close> is
  the \<^verbatim>\<open>lastTradedPrice\<close> before the pass, which therefore stays as it was.
\<close>

theorem execution_price_rule:
  assumes "sweep_step bk = Some (out, bk')"
    and "top_pq (buyOrders bk) = Some B" and "top_pq (sellOrders bk) = Some A"
  shows "\<exists>q p. out = [Purchased (id_order B) q p, Sold (id_order A) q p]
           \<and> lastTradedPrice bk' = p
           \<and> (\<not> isMarketOrder B \<and> \<not> isMarketOrder A \<and> timestamp B < timestamp A
                \<longrightarrow> p = limitPrice B)
           \<and> (\<not> isMarketOrder B \<and> \<not> isMarketOrder A \<and> timestamp A < timestamp B
                \<longrightarrow> p = limitPrice A)
           \<and> (isMarketOrder B \<and> \<not> isMarketOrder A \<longrightarrow> p = limitPrice A)
           \<and> (\<not> isMarketOrder B \<and> isMarketOrder A \<longrightarrow> p = limitPrice B)
           \<and> (isMarketOrder B \<and> isMarketOrder A
                \<longrightarrow> p = lastTradedPrice bk \<and> lastTradedPrice bk' = lastTradedPrice bk)"
proof -
  from assms have ex: "execute_pair bk B A = (out, bk')"
    by (auto elim!: sweep_step_tops)
  then show ?thesis
    by (auto simp: execute_pair_def Let_def determinePrice_def)
qed

lemma sweep_example:
  "sweep_step example_book =
     Some ([Purchased ''O1'' 5 (Finite 101), Sold ''O2'' 5 (Finite 101)],
           \<lparr>buyOrders = [O1\<lparr>quantity := 5\<rparr>], sellOrders = [],
            lastTradedPrice = Finite 101\<rparr>)"
  by (simp add: example_defs engine_defs)

theorem execution_price_rule_witness:
  "sweep_step example_book =
     Some ([Purchased ''O1'' 5 (Finite 101), Sold ''O2'' 5 (Finite 101)],
           \<lparr>buyOrders = [O1\<lparr>quantity := 5\<rparr>], sellOrders = [],
            lastTradedPrice = Finite 101\<rparr>)
   \<and> top_pq (buyOrders example_book) = Some O1
   \<and> top_pq (sellOrders example_book) = Some O2
   \<and> timestamp O1 < timestamp O2
   \<and> limitPrice O1 = Finite 101"
proof -
  note h1 = sweep_example
  have h2: "top_pq (buyOrders example_book) = Some O1"
    by (simp add: example_defs)
  have h3: "top_pq (sellOrders example_book) = Some O2"
    by (simp add: example_defs)
  have limit: "\<not> isMarketOrder O1" "\<not> isMarketOrder O2" "timestamp O1 < timestamp O2"
    by (simp_all add: O1_def O2_def)
  from execution_price_rule [OF h1 h2 h3] limit
  have "lastTradedPrice
          \<lparr>buyOrders = [O1\<lparr>quantity := 5\<rparr>], sellOrders = [],
           lastTradedPrice = Finite 101\<rparr>
        = limitPrice O1"
    by auto
  then have "limitPrice O1 = Finite 101" by simp
  with h1 h2 h3 limit show ?thesis by simp
qed

lemma mset_pop_pq: "top_pq q = Some t \<Longrightarrow> mset q = add_mset t (mset (pop_pq q))"
  using top_pq_mem [of q t] by (simp add: pop_pq_def)

text \<open>
  Claim C2. For every book with both queues non-empty, with tops \<open>B\<close> (buy) and \<open>A\<close>
  (sell): if \<open>B\<close> is a market order or \<open>A\<close> is a market order or
  \<^verbatim>\<open>B.limitPrice >= A.limitPrice\<close>, the pass executes the match. It writes the
  purchase of \<open>B\<close> and the sale of \<open>A\<close> over the smaller of the two quantities at the
  price of the price rule, which becomes the \<^verbatim>\<open>lastTradedPrice\<close>; \<open>B\<close> and \<open>A\<close>
  leave their queues, and each comes back with its quantity reduced by the traded
  quantity exactly when its quantity is larger than that; all other orders stay. The
  sweep then goes on from that book. If the condition is false the pass exits, and the
  sweep returns the book as it was, both orders still in their queues, with nothing
  written.
\<close>

theorem cross_test:
  assumes "top_pq (buyOrders bk) = Some B" and "top_pq (sellOrders bk) = Some A"
  shows "(isMarketOrder B \<or> isMarketOrder A \<or> ge_double (limitPrice B) (limitPrice A)
            \<longrightarrow> (\<exists>out bk'. sweep_step bk = Some (out, bk')
                  \<and> out = [Purchased (id_order B)
                              (sint (min_int32 (quantity B) (quantity A)))
                              (determinePrice bk B A),
                           Sold (id_order A)
                              (sint (min_int32 (quantity B) (quantity A)))
                              (determinePrice bk B A)]
                  \<and> add_mset B (mset (buyOrders bk')) = mset (buyOrders bk)
                      + (if sint (quantity B) > sint (min_int32 (quantity B) (quantity A))
                         then {#B\<lparr>quantity :=
                                  quantity B - min_int32 (quantity B) (quantity A)\<rparr>#}
                         else {#})
                  \<and> add_mset A (mset (sellOrders bk')) = mset (sellOrders bk)
                      + (if sint (quantity A) > sint (min_int32 (quantity B) (quantity A))
                         then {#A\<lparr>quantity :=
                                  quantity A - min_int32 (quantity B) (quantity A)\<rparr>#}
                         else {#})
                  \<and> lastTradedPrice bk' = determinePrice bk B A
                  \<and> matchOrders bk = (out @ fst (matchOrders bk'), snd (matchOrders bk'))))
       \<and> (\<not> (isMarketOrder B \<or> isMarketOrder A \<or> ge_double (limitPrice B) (limitPrice A))
            \<longrightarrow> sweep_step bk = None \<and> matchOrders bk = ([], bk))"
proof (intro conjI impI)
  assume c: "isMarketOrder B \<or> isMarketOrder A \<or> ge_double (limitPrice B) (limitPrice A)"
  obtain out bk' where ex: "execute_pair bk B A = (out, bk')"
    by (cases "execute_pair bk B A")
  from assms c ex have step: "sweep_step bk = Some (out, bk')"
    by (simp add: sweep_step_def canMatch_def)
  from ex have out: "out = [Purchased (id_order B)
                              (sint (min_int32 (quantity B) (quantity A)))
                              (determinePrice bk B A),
                           Sold (id_order A)
                              (sint (min_int32 (quantity B) (quantity A)))
                              (determinePrice bk B A)]"
    by (auto simp: execute_pair_def Let_def)
  from ex have price: "lastTradedPrice bk' = determinePrice bk B A"
    by (auto simp: execute_pair_def Let_def)
  from ex have "mset (buyOrders bk') = mset (pop_pq (buyOrders bk))
                      + (if sint (quantity B) > sint (min_int32 (quantity B) (quantity A))
                         then {#B\<lparr>quantity :=
                                  quantity B - min_int32 (quantity B) (quantity A)\<rparr>#}
                         else {#})"
    by (auto simp: execute_pair_def Let_def push_pq_def)
  with mset_pop_pq [OF assms(1)]
  have buys: "add_mset B (mset (buyOrders bk')) = mset (buyOrders bk)
                      + (if sint (quantity B) > sint (min_int32 (quantity B) (quantity A))
                         then {#B\<lparr>quantity :=
                                  quantity B - min_int32 (quantity B) (quantity A)\<rparr>#}
                         else {#})"
    by simp
  from ex have "mset (sellOrders bk') = mset (pop_pq (sellOrders bk))
                      + (if sint (quantity A) > sint (min_int32 (quantity B) (quantity A))
                         then {#A\<lparr>quantity :=
                                  quantity A - min_int32 (quantity B) (quantity A)\<rparr>#}
                         else {#})"
    by (auto simp: execute_pair_def Let_def push_pq_def)
  with mset_pop_pq [OF assms(2)]
  have sells: "add_mset A (mset (sellOrders bk')) = mset (sellOrders bk)
                      + (if sint (quantity A) > sint (min_int32 (quantity B) (quantity A))
                         then {#A\<lparr>quantity :=
                                  quantity A - min_int32 (quantity B) (quantity A)\<rparr>#}
                         else {#})"
    by simp
  from step have m: "matchOrders bk = (out @ fst (matchOrders bk'), snd (matchOrders bk'))"
    by (simp add: matchOrders.simps [of bk] split: prod.splits)
  from step out buys sells price m
  show "\<exists>out bk'. sweep_step bk = Some (out, bk')
                  \<and> out = [Purchased (id_order B)
                              (sint (min_int32 (quantity B) (quantity A)))
                              (determinePrice bk B A),
                           Sold (id_order A)
                              (sint (min_int32 (quantity B) (quantity A)))
                              (determinePrice bk B A)]
                  \<and> add_mset B (mset (buyOrders bk')) = mset (buyOrders bk)
                      + (if sint (quantity B) > sint (min_int32 (quantity B) (quantity A))
                         then {#B\<lparr>quantity :=
                                  quantity B - min_int32 (quantity B) (quantity A)\<rparr>#}
                         else {#})
                  \<and> add_mset A (mset (sellOrders bk')) = mset (sellOrders bk)
                      + (if sint (quantity A) > sint (min_int32 (quantity B) (quantity A))
                         then {#A\<lparr>quantity :=
                                  quantity A - min_int32 (quantity B) (quantity A)\<rparr>#}
                         else {#})
                  \<and> lastTradedPrice bk' = determinePrice bk B A
                  \<and> matchOrders bk = (out @ fst (matchOrders bk'), snd (matchOrders bk'))"
    by blast
next
  assume "\<not> (isMarketOrder B \<or> isMarketOrder A \<or> ge_double (limitPrice B) (limitPrice A))"
  with assms show "sweep_step bk = None"
    by (simp add: sweep_step_def canMatch_def)
next
  assume "\<not> (isMarketOrder B \<or> isMarketOrder A \<or> ge_double (limitPrice B) (limitPrice A))"
  with assms have "sweep_step bk = None"
    by (simp add: sweep_step_def canMatch_def)
  then show "matchOrders bk = ([], bk)"
    by (simp add: matchOrders.simps [of bk])
qed

text \<open>
  The witness reads the result of the pass on the example book off the theorem: the
  two lines, the buy order that comes back with 5 shares, the sell queue that is left
  empty, and the new price.
\<close>

theorem cross_test_witness:
  "top_pq (buyOrders example_book) = Some O1 \<and> top_pq (sellOrders example_book) = Some O2
   \<and> ge_double (limitPrice O1) (limitPrice O2)
   \<and> (\<exists>bk'. sweep_step example_book
                = Some ([Purchased ''O1'' 5 (Finite 101), Sold ''O2'' 5 (Finite 101)], bk')
            \<and> mset (buyOrders bk') = {#O1\<lparr>quantity := 5\<rparr>#}
            \<and> mset (sellOrders bk') = {#}
            \<and> lastTradedPrice bk' = Finite 101)"
proof -
  have h2: "top_pq (buyOrders example_book) = Some O1"
    by (simp add: example_defs)
  have h3: "top_pq (sellOrders example_book) = Some O2"
    by (simp add: example_defs)
  have h4: "ge_double (limitPrice O1) (limitPrice O2)"
    by (simp add: example_defs ge_double_def)
  from cross_test [OF h2 h3] h4
  have "\<exists>bk'. sweep_step example_book
                = Some ([Purchased ''O1'' 5 (Finite 101), Sold ''O2'' 5 (Finite 101)], bk')
            \<and> mset (buyOrders bk') = {#O1\<lparr>quantity := 5\<rparr>#}
            \<and> mset (sellOrders bk') = {#}
            \<and> lastTradedPrice bk' = Finite 101"
    by (auto simp: example_defs min_int32_def determinePrice_def)
  with h2 h3 h4 show ?thesis by simp
qed

text \<open>
  Claim C3 says that an order with a quantity that is not positive, or with a negative
  limit price, is rejected and leaves both queues as they were. The code has no such
  check, neither in \<^verbatim>\<open>parseOrder\<close> nor in \<^verbatim>\<open>addOrder\<close>: an order with quantity 0
  and an order with limit price -1 are parsed, and after their submission to an empty
  book each rests in its queue.
\<close>

theorem no_validation_counterexample:
  "sint (quantity zero_quantity_order) \<le> 0
   \<and> parseOrder \<lparr>line_id = ''Z1'', line_type = CHR ''B'', line_quantity = 0,
                  line_price = Price (Finite 101)\<rparr> 1 = Inr zero_quantity_order
   \<and> buyOrders (snd (submit (new_OrderBook (Finite 100)) zero_quantity_order))
       = [zero_quantity_order]
   \<and> buyOrders (snd (submit (new_OrderBook (Finite 100)) zero_quantity_order))
       \<noteq> buyOrders (new_OrderBook (Finite 100))
   \<and> less_double (limitPrice negative_price_order) (Finite 0)
   \<and> parseOrder \<lparr>line_id = ''N1'', line_type = CHR ''S'', line_quantity = 10,
                  line_price = Price (Finite (- 1))\<rparr> 1 = Inr negative_price_order
   \<and> sellOrders (snd (submit (new_OrderBook (Finite 100)) negative_price_order))
       = [negative_price_order]
   \<and> sellOrders (snd (submit (new_OrderBook (Finite 100)) negative_price_order))
       \<noteq> sellOrders (new_OrderBook (Finite 100))"
  by (simp add: zero_quantity_order_def negative_price_order_def parseOrder_def submit_def
      new_OrderBook_def addOrder_def push_pq_def matchOrders.simps sweep_step_def)

text \<open>
  Claim C3 as amended. \<^verbatim>\<open>addOrder\<close> accepts every order, whatever its quantity and
  limit price: an order of type \<^verbatim>\<open>'B'\<close> is pushed on the buy queue and any other
  order on the sell queue; the other queue and \<^verbatim>\<open>lastTradedPrice\<close> stay as they
  were, and nothing else enters or leaves the queues.
\<close>

theorem addOrder_accepts_every_order:
  "(type ord = CHR ''B'' \<longrightarrow>
       buyOrders (addOrder bk ord) = push_pq ord (buyOrders bk)
     \<and> sellOrders (addOrder bk ord) = sellOrders bk)
   \<and> (type ord \<noteq> CHR ''B'' \<longrightarrow>
       sellOrders (addOrder bk ord) = push_pq ord (sellOrders bk)
     \<and> buyOrders (addOrder bk ord) = buyOrders bk)
   \<and> lastTradedPrice (addOrder bk ord) = lastTradedPrice bk
   \<and> mset (buyOrders (addOrder bk ord)) + mset (sellOrders (addOrder bk ord))
       = mset (buyOrders bk) + mset (sellOrders bk) + {#ord#}"
  by (simp add: addOrder_def push_pq_def)

theorem addOrder_accepts_every_order_witness:
  "type zero_quantity_order = CHR ''B''
   \<and> buyOrders (addOrder example_book zero_quantity_order) = [O1, zero_quantity_order]
   \<and> sellOrders (addOrder example_book zero_quantity_order) = [O2]"
  using addOrder_accepts_every_order [of zero_quantity_order example_book]
  by (simp add: zero_quantity_order_def push_pq_def example_book_def)

lemma matchOrders_fuel_enough:
  "resting bk < n \<Longrightarrow> matchOrders_fuel n bk = Some (matchOrders bk)"
proof (induction n arbitrary: bk)
  case 0
  then show ?case by simp
next
  case (Suc n)
  show ?case
  proof (cases "sweep_step bk")
    case None
    then show ?thesis by (simp add: matchOrders.simps [of bk])
  next
    case (Some r)
    obtain out bk' where r: "r = (out, bk')" by (cases r)
    with Some have "resting bk' < resting bk"
      by (simp add: sweep_step_resting)
    with Suc.prems have "resting bk' < n" by simp
    then have "matchOrders_fuel n bk' = Some (matchOrders bk')"
      by (rule Suc.IH)
    with Some r show ?thesis
      by (simp add: matchOrders.simps [of bk] split: prod.splits)
  qed
qed

text \<open>
  Claim C8. From every book the sweep returns after at most as many passes as there
  are resting orders: the loop with a counter of passes, started with one more than
  the number of resting orders, reaches the exit of the loop and returns what
  \<^verbatim>\<open>matchOrders\<close> returns. Every pass takes at least one order out of the book for
  good, since \<^verbatim>\<open>tradedQuantity\<close> is the smaller of the two quantities; this holds
  for all quantities, positive or not.
\<close>

theorem sweep_terminates:
  "matchOrders_fuel (Suc (length (buyOrders bk) + length (sellOrders bk))) bk
     = Some (matchOrders bk)"
  by (rule matchOrders_fuel_enough) (simp add: resting_def)

theorem sweep_terminates_witness:
  "matchOrders_fuel (Suc (length (buyOrders example_book) + length (sellOrders example_book)))
     example_book =
       Some ([Purchased ''O1'' 5 (Finite 101), Sold ''O2'' 5 (Finite 101)],
             \<lparr>buyOrders = [O1\<lparr>quantity := 5\<rparr>], sellOrders = [],
              lastTradedPrice = Finite 101\<rparr>)"
proof -
  have "sweep_step \<lparr>buyOrders = [O1\<lparr>quantity := 5\<rparr>], sellOrders = [],
          lastTradedPrice = Finite 101\<rparr> = None"
    by (simp add: sweep_step_def O1_def)
  with sweep_example have "matchOrders example_book =
          ([Purchased ''O1'' 5 (Finite 101), Sold ''O2'' 5 (Finite 101)],
           \<lparr>buyOrders = [O1\<lparr>quantity := 5\<rparr>], sellOrders = [],
            lastTradedPrice = Finite 101\<rparr>)"
    by (simp add: matchOrders.simps)
  with sweep_terminates [of example_book] show ?thesis by simp
qed

lemma sweep_step_final: "sweep_step (snd (matchOrders bk)) = None"
proof (induction bk rule: matchOrders.induct)
  case (1 bk)
  show ?case
  proof (cases "sweep_step bk")
    case None
    then show ?thesis by (simp add: matchOrders.simps [of bk])
  next
    case (Some r)
    obtain out bk' where r: "r = (out, bk')" by (cases r)
    from "1.IH" [OF Some [unfolded r] refl] Some r show ?thesis
      by (auto simp: matchOrders.simps [of bk] split: prod.splits)
  qed
qed

lemma process_nan_buy_lines:
  "process_lines (new_OrderBook (Finite 100)) 0 nan_buy_lines
     = Inr ([], \<lparr>buyOrders = [nan_buy], sellOrders = [sell_99],
                 lastTradedPrice = Finite 100\<rparr>)"
  by (simp add: nan_defs parseOrder_def submit_def addOrder_def new_OrderBook_def
      push_pq_def matchOrders.simps sweep_step_def canMatch_def ge_double_def)

text \<open>
  Claim C5 says that after every submit one queue is empty, or the best bid is
  strictly below the best ask, unless a top is a market order. \<^verbatim>\<open>std::stod\<close> turns
  the price token \<^verbatim>\<open>nan\<close> into NaN, and the code takes the order: after the lines
  \<^verbatim>\<open>B1 B 10 nan\<close> and \<^verbatim>\<open>S1 S 5 99\<close> both queues are non-empty, neither top is a
  market order, and the bid NaN is not below the ask 99.
\<close>

theorem nan_bid_counterexample:
  "process_lines (new_OrderBook (Finite 100)) 0 nan_buy_lines
     = Inr ([], \<lparr>buyOrders = [nan_buy], sellOrders = [sell_99],
                 lastTradedPrice = Finite 100\<rparr>)
   \<and> submit \<lparr>buyOrders = [nan_buy], sellOrders = [], lastTradedPrice = Finite 100\<rparr> sell_99
       = ([], \<lparr>buyOrders = [nan_buy], sellOrders = [sell_99], lastTradedPrice = Finite 100\<rparr>)
   \<and> top_pq [nan_buy] = Some nan_buy \<and> top_pq [sell_99] = Some sell_99
   \<and> \<not> isMarketOrder nan_buy \<and> \<not> isMarketOrder sell_99
   \<and> \<not> less_double (limitPrice nan_buy) (limitPrice sell_99)"
  using process_nan_buy_lines
  by (simp add: nan_defs submit_def addOrder_def push_pq_def matchOrders.simps
      sweep_step_def canMatch_def ge_double_def)

text \<open>
  Claim C5 as amended. After \<open>submit\<close> (\<^verbatim>\<open>addOrder\<close>, then \<^verbatim>\<open>matchOrders\<close>)
  returns, one of the queues is empty, or neither top is a market order and the cross
  test \<^verbatim>\<open>B.limitPrice >= A.limitPrice\<close> of the tops is false; when neither of the
  two limit prices is NaN, the limit price of the top of the buy queue is then
  strictly below that of the top of the sell queue. The exemption of the claim for
  market orders is never needed.
\<close>

theorem no_crossing_left_behind:
  assumes "submit bk ord = (out, bk')"
  shows "buyOrders bk' = [] \<or> sellOrders bk' = []
         \<or> (\<exists>B A. top_pq (buyOrders bk') = Some B \<and> top_pq (sellOrders bk') = Some A
               \<and> \<not> isMarketOrder B \<and> \<not> isMarketOrder A
               \<and> \<not> ge_double (limitPrice B) (limitPrice A)
               \<and> (limitPrice B \<noteq> NaN \<and> limitPrice A \<noteq> NaN
                    \<longrightarrow> less_double (limitPrice B) (limitPrice A)))"
proof -
  from assms have "sweep_step bk' = None"
    using sweep_step_final [of "addOrder bk ord"] by (simp add: submit_def)
  then show ?thesis
    by (cases "buyOrders bk'"; cases "sellOrders bk'")
       (auto simp: sweep_step_def canMatch_def ge_double_def split: option.splits if_splits)
qed

theorem no_crossing_left_behind_witness:
  "submit \<lparr>buyOrders = [], sellOrders = [O3], lastTradedPrice = Finite 100\<rparr> O4
     = ([], resting_book)
   \<and> top_pq (buyOrders resting_book) = Some O4
   \<and> top_pq (sellOrders resting_book) = Some O3
   \<and> limitPrice O4 \<noteq> NaN \<and> limitPrice O3 \<noteq> NaN
   \<and> less_double (limitPrice O4) (limitPrice O3)"
proof -
  have h: "submit \<lparr>buyOrders = [], sellOrders = [O3], lastTradedPrice = Finite 100\<rparr> O4
             = ([], resting_book)"
    by (simp add: submit_def addOrder_def matchOrders.simps example_defs engine_defs)
  have tops: "top_pq (buyOrders resting_book) = Some O4"
    "top_pq (sellOrders resting_book) = Some O3"
    by (simp_all add: resting_book_def)
  have n: "limitPrice O4 \<noteq> NaN" "limitPrice O3 \<noteq> NaN"
    by (simp_all add: O3_def O4_def)
  have ne: "buyOrders resting_book \<noteq> []" "sellOrders resting_book \<noteq> []"
    by (simp_all add: resting_book_def)
  from no_crossing_left_behind [OF h] tops n ne
  have "less_double (limitPrice O4) (limitPrice O3)"
    by auto
  with h tops n show ?thesis by simp
qed

section \<open>The books that the program reaches\<close>

lemma set_pop_pq: "set (pop_pq q) \<subseteq> set q"
  by (simp add: pop_pq_def set_remove1_subset split: option.splits)

lemma execute_pair_invariant:
  assumes inv: "book_invariant bk"
    and B: "top_pq (buyOrders bk) = Some B" and A: "top_pq (sellOrders bk) = Some A"
    and ex: "execute_pair bk B A = (out, bk')"
  shows "book_invariant bk'"
proof -
  from B A have mem: "B \<in> set (buyOrders bk)" "A \<in> set (sellOrders bk)"
    by (simp_all add: top_pq_mem)
  let ?B' = "B\<lparr>quantity := quantity B - min_int32 (quantity B) (quantity A)\<rparr>"
  let ?A' = "A\<lparr>quantity := quantity A - min_int32 (quantity B) (quantity A)\<rparr>"
  from ex have b: "set (buyOrders bk') \<subseteq> insert ?B' (set (pop_pq (buyOrders bk)))"
    and a: "set (sellOrders bk') \<subseteq> insert ?A' (set (pop_pq (sellOrders bk)))"
    by (auto simp: execute_pair_def Let_def push_pq_def split: if_splits)
  from b set_pop_pq [of "buyOrders bk"]
  have b': "set (buyOrders bk') \<subseteq> insert ?B' (set (buyOrders bk))" by blast
  from a set_pop_pq [of "sellOrders bk"]
  have a': "set (sellOrders bk') \<subseteq> insert ?A' (set (sellOrders bk))" by blast
  from inv mem have "type ?B' = CHR ''B''" "type ?A' \<noteq> CHR ''B''"
    "isMarketOrder ?B' \<longrightarrow> limitPrice ?B' = Finite 0"
    "isMarketOrder ?A' \<longrightarrow> limitPrice ?A' = Finite 0"
    by (simp_all add: book_invariant_def)
  with inv a' b' show ?thesis
    unfolding book_invariant_def set_append by blast
qed

lemma matchOrders_invariant: "book_invariant bk \<Longrightarrow> book_invariant (snd (matchOrders bk))"
proof (induction bk rule: matchOrders.induct)
  case (1 bk)
  show ?case
  proof (cases "sweep_step bk")
    case None
    with "1.prems" show ?thesis by (simp add: matchOrders.simps [of bk])
  next
    case (Some r)
    obtain out bk' where r: "r = (out, bk')" by (cases r)
    with Some have step: "sweep_step bk = Some (out, bk')" by simp
    have m: "snd (matchOrders bk) = snd (matchOrders bk')"
      using step by (simp add: matchOrders.simps [of bk] split: prod.splits)
    from step obtain B A where "top_pq (buyOrders bk) = Some B"
      and "top_pq (sellOrders bk) = Some A" and "execute_pair bk B A = (out, bk')"
      by (rule sweep_step_tops)
    with "1.prems" have "book_invariant bk'" by (rule execute_pair_invariant)
    with "1.IH" [OF step refl] m show ?thesis by simp
  qed
qed

lemma addOrder_invariant:
  assumes "book_invariant bk" and "isMarketOrder ord \<longrightarrow> limitPrice ord = Finite 0"
  shows "book_invariant (addOrder bk ord)"
  using assms by (auto simp: book_invariant_def addOrder_def push_pq_def)

lemma parseOrder_market:
  assumes "parseOrder line ts = Inr ord"
  shows "isMarketOrder ord \<longrightarrow> limitPrice ord = Finite 0"
  using assms by (auto simp: parseOrder_def split: price_token.splits)

lemma process_lines_invariant:
  assumes "process_lines bk ts lines = Inr (out, bk')" and "book_invariant bk"
  shows "book_invariant bk'"
  using assms
proof (induction lines arbitrary: bk ts out bk')
  case Nil
  then show ?case by simp
next
  case (Cons line rest)
  from Cons.prems obtain ord where p: "parseOrder line (ts + 1) = Inr ord"
    by (auto split: sum.splits)
  obtain o1 bk1 where s: "submit bk ord = (o1, bk1)"
    by (cases "submit bk ord")
  from Cons.prems p s obtain o2 where r: "process_lines bk1 (ts + 1) rest = Inr (o2, bk')"
    by (auto split: sum.splits prod.splits)
  from Cons.prems(2) parseOrder_market [OF p] have "book_invariant (addOrder bk ord)"
    by (rule addOrder_invariant)
  then have "book_invariant (snd (matchOrders (addOrder bk ord)))"
    by (rule matchOrders_invariant)
  with s have "book_invariant bk1" by (simp add: submit_def)
  with r show ?case by (rule Cons.IH)
qed

lemma reachable_book_invariant:
  assumes "process_lines (new_OrderBook initialPrice) 0 lines = Inr (out, bk)"
  shows "book_invariant bk"
  using assms
  by (rule process_lines_invariant) (simp add: book_invariant_def new_OrderBook_def)

text \<open>
  The subtraction of a smaller quantity that is not negative from a larger one does
  not wrap around, and \<open>min_int32\<close> is the minimum of the values.
\<close>

lemma sint_diff_no_wrap:
  fixes a b :: int32
  assumes "0 \<le> sint b" and "sint b \<le> sint a"
  shows "sint (a - b) = sint a - sint b"
proof -
  have "sint a < 2 ^ 31" using sint_lt [of a] by simp
  with assms have "- (2 ^ 31) \<le> sint a - sint b" "sint a - sint b < 2 ^ 31"
    by simp_all
  then have "signed_take_bit 31 (sint a - sint b) = sint a - sint b"
    by (simp add: signed_take_bit_int_eq_self)
  then show ?thesis by (simp add: sint_word_ariths)
qed

lemma sint_min_int32: "sint (min_int32 a b) = min (sint a) (sint b)"
  by (simp add: min_int32_def min_def)

lemma execute_pair_nonneg:
  assumes inv: "nonneg_book bk"
    and B: "top_pq (buyOrders bk) = Some B" and A: "top_pq (sellOrders bk) = Some A"
    and ex: "execute_pair bk B A = (out, bk')"
  shows "nonneg_book bk'"
    and "0 \<le> sint (min_int32 (quantity B) (quantity A))"
    and "sint (quantity B - min_int32 (quantity B) (quantity A))
           = sint (quantity B) - sint (min_int32 (quantity B) (quantity A))"
    and "sint (quantity A - min_int32 (quantity B) (quantity A))
           = sint (quantity A) - sint (min_int32 (quantity B) (quantity A))"
proof -
  let ?t = "min_int32 (quantity B) (quantity A)"
  from B A have mem: "B \<in> set (buyOrders bk)" "A \<in> set (sellOrders bk)"
    by (simp_all add: top_pq_mem)
  with inv have q: "0 \<le> sint (quantity B)" "0 \<le> sint (quantity A)"
    by (simp_all add: nonneg_book_def)
  then show t: "0 \<le> sint ?t"
    by (simp add: sint_min_int32)
  have le: "sint ?t \<le> sint (quantity B)" "sint ?t \<le> sint (quantity A)"
    by (simp_all add: sint_min_int32)
  from t le(1) show dB: "sint (quantity B - ?t) = sint (quantity B) - sint ?t"
    by (rule sint_diff_no_wrap)
  from t le(2) show dA: "sint (quantity A - ?t) = sint (quantity A) - sint ?t"
    by (rule sint_diff_no_wrap)
  let ?B' = "B\<lparr>quantity := quantity B - ?t\<rparr>"
  let ?A' = "A\<lparr>quantity := quantity A - ?t\<rparr>"
  from ex have b: "set (buyOrders bk') \<subseteq> insert ?B' (set (pop_pq (buyOrders bk)))"
    and a: "set (sellOrders bk') \<subseteq> insert ?A' (set (pop_pq (sellOrders bk)))"
    by (auto simp: execute_pair_def Let_def push_pq_def split: if_splits)
  from b set_pop_pq [of "buyOrders bk"]
  have b': "set (buyOrders bk') \<subseteq> insert ?B' (set (buyOrders bk))" by blast
  from a set_pop_pq [of "sellOrders bk"]
  have a': "set (sellOrders bk') \<subseteq> insert ?A' (set (sellOrders bk))" by blast
  from dB dA le have n: "0 \<le> sint (quantity ?B')" "0 \<le> sint (quantity ?A')"
    by simp_all
  from inv a' b' n show "nonneg_book bk'"
    unfolding nonneg_book_def set_append by blast
qed

lemma matchOrders_nonneg: "nonneg_book bk \<Longrightarrow> nonneg_book (snd (matchOrders bk))"
proof (induction bk rule: matchOrders.induct)
  case (1 bk)
  show ?case
  proof (cases "sweep_step bk")
    case None
    with "1.prems" show ?thesis by (simp add: matchOrders.simps [of bk])
  next
    case (Some r)
    obtain out bk' where r: "r = (out, bk')" by (cases r)
    with Some have step: "sweep_step bk = Some (out, bk')" by simp
    have m: "snd (matchOrders bk) = snd (matchOrders bk')"
      using step by (simp add: matchOrders.simps [of bk] split: prod.splits)
    from step obtain B A where "top_pq (buyOrders bk) = Some B"
      and "top_pq (sellOrders bk) = Some A" and "execute_pair bk B A = (out, bk')"
      by (rule sweep_step_tops)
    with "1.prems" have "nonneg_book bk'" by (rule execute_pair_nonneg(1))
    with "1.IH" [OF step refl] m show ?thesis by simp
  qed
qed

lemma addOrder_nonneg:
  assumes "nonneg_book bk" and "0 \<le> sint (quantity ord)"
  shows "nonneg_book (addOrder bk ord)"
  using assms by (auto simp: nonneg_book_def addOrder_def push_pq_def)

section \<open>The ordering of the queues\<close>

text \<open>On the doubles that are not NaN the comparisons are those of a linear order.\<close>

lemma less_double_rank:
  "a \<noteq> NaN \<Longrightarrow> b \<noteq> NaN \<Longrightarrow> less_double a b = (rank a < rank b)"
  by (cases a; cases b) simp_all

lemma rank_eq_iff: "a \<noteq> NaN \<Longrightarrow> b \<noteq> NaN \<Longrightarrow> (rank a = rank b) = (a = b)"
  by (cases a; cases b) simp_all

lemma le_double_rank:
  "a \<noteq> NaN \<Longrightarrow> b \<noteq> NaN \<Longrightarrow> le_double a b = (rank a \<le> rank b)"
  by (simp add: le_double_def ge_double_def less_double_rank not_less)

lemma less_double_not_NaN: "less_double a b \<Longrightarrow> a \<noteq> NaN \<and> b \<noteq> NaN"
  by (cases a; cases b) simp_all

lemma operator_less_buy:
  assumes "type a = CHR ''B''" and "limitPrice a \<noteq> NaN" and "limitPrice b \<noteq> NaN"
  shows "operator_less a b
           = (rank (limitPrice a) < rank (limitPrice b)
              \<or> (rank (limitPrice a) = rank (limitPrice b) \<and> timestamp b < timestamp a))"
  using assms
  by (auto simp: operator_less_def ne_double_def less_double_rank rank_eq_iff)

lemma operator_less_sell:
  assumes "type a \<noteq> CHR ''B''" and "limitPrice a \<noteq> NaN" and "limitPrice b \<noteq> NaN"
  shows "operator_less a b
           = (rank (limitPrice b) < rank (limitPrice a)
              \<or> (rank (limitPrice a) = rank (limitPrice b) \<and> timestamp b < timestamp a))"
  using assms
  by (auto simp: operator_less_def ne_double_def greater_double_def less_double_rank
      rank_eq_iff)

lemma top_from_buy:
  assumes "\<forall>x\<in>set (m # ys). type x = CHR ''B'' \<and> limitPrice x \<noteq> NaN"
  shows "\<forall>x\<in>set (m # ys). rank (limitPrice x) \<le> rank (limitPrice (top_from m ys))
           \<and> (rank (limitPrice x) = rank (limitPrice (top_from m ys))
                \<longrightarrow> timestamp (top_from m ys) \<le> timestamp x)"
  using assms
proof (induction ys arbitrary: m)
  case Nil
  then show ?case by simp
next
  case (Cons y ys)
  let ?m' = "if operator_less m y then y else m"
  from Cons.prems have ty: "type m = CHR ''B''" "limitPrice m \<noteq> NaN" "limitPrice y \<noteq> NaN"
    by simp_all
  from Cons.prems have "\<forall>x\<in>set (?m' # ys). type x = CHR ''B'' \<and> limitPrice x \<noteq> NaN"
    by simp
  then have IH: "\<forall>x\<in>set (?m' # ys).
           rank (limitPrice x) \<le> rank (limitPrice (top_from ?m' ys))
           \<and> (rank (limitPrice x) = rank (limitPrice (top_from ?m' ys))
                \<longrightarrow> timestamp (top_from ?m' ys) \<le> timestamp x)"
    by (rule Cons.IH)
  show ?case
  proof (cases "operator_less m y")
    case True
    with ty have lt: "rank (limitPrice m) < rank (limitPrice y)
        \<or> (rank (limitPrice m) = rank (limitPrice y) \<and> timestamp y < timestamp m)"
      by (simp add: operator_less_buy)
    from IH True have "rank (limitPrice y) \<le> rank (limitPrice (top_from y ys))
        \<and> (rank (limitPrice y) = rank (limitPrice (top_from y ys))
             \<longrightarrow> timestamp (top_from y ys) \<le> timestamp y)"
      by simp
    with lt have "rank (limitPrice m) \<le> rank (limitPrice (top_from y ys))
        \<and> (rank (limitPrice m) = rank (limitPrice (top_from y ys))
             \<longrightarrow> timestamp (top_from y ys) \<le> timestamp m)"
      by auto
    with IH True show ?thesis by simp
  next
    case False
    with ty have ge: "rank (limitPrice y) < rank (limitPrice m)
        \<or> (rank (limitPrice m) = rank (limitPrice y) \<and> timestamp m \<le> timestamp y)"
      by (auto simp: operator_less_buy)
    from IH False have "rank (limitPrice m) \<le> rank (limitPrice (top_from m ys))
        \<and> (rank (limitPrice m) = rank (limitPrice (top_from m ys))
             \<longrightarrow> timestamp (top_from m ys) \<le> timestamp m)"
      by simp
    with ge have "rank (limitPrice y) \<le> rank (limitPrice (top_from m ys))
        \<and> (rank (limitPrice y) = rank (limitPrice (top_from m ys))
             \<longrightarrow> timestamp (top_from m ys) \<le> timestamp y)"
      by auto
    with IH False show ?thesis by simp
  qed
qed

lemma top_from_sell:
  assumes "\<forall>x\<in>set (m # ys). type x \<noteq> CHR ''B'' \<and> limitPrice x \<noteq> NaN"
  shows "\<forall>x\<in>set (m # ys). rank (limitPrice (top_from m ys)) \<le> rank (limitPrice x)
           \<and> (rank (limitPrice x) = rank (limitPrice (top_from m ys))
                \<longrightarrow> timestamp (top_from m ys) \<le> timestamp x)"
  using assms
proof (induction ys arbitrary: m)
  case Nil
  then show ?case by simp
next
  case (Cons y ys)
  let ?m' = "if operator_less m y then y else m"
  from Cons.prems have ty: "type m \<noteq> CHR ''B''" "limitPrice m \<noteq> NaN" "limitPrice y \<noteq> NaN"
    by simp_all
  from Cons.prems have "\<forall>x\<in>set (?m' # ys). type x \<noteq> CHR ''B'' \<and> limitPrice x \<noteq> NaN"
    by simp
  then have IH: "\<forall>x\<in>set (?m' # ys).
           rank (limitPrice (top_from ?m' ys)) \<le> rank (limitPrice x)
           \<and> (rank (limitPrice x) = rank (limitPrice (top_from ?m' ys))
                \<longrightarrow> timestamp (top_from ?m' ys) \<le> timestamp x)"
    by (rule Cons.IH)
  show ?case
  proof (cases "operator_less m y")
    case True
    with ty have lt: "rank (limitPrice y) < rank (limitPrice m)
        \<or> (rank (limitPrice m) = rank (limitPrice y) \<and> timestamp y < timestamp m)"
      by (simp add: operator_less_sell)
    from IH True have "rank (limitPrice (top_from y ys)) \<le> rank (limitPrice y)
        \<and> (rank (limitPrice y) = rank (limitPrice (top_from y ys))
             \<longrightarrow> timestamp (top_from y ys) \<le> timestamp y)"
      by simp
    with lt have "rank (limitPrice (top_from y ys)) \<le> rank (limitPrice m)
        \<and> (rank (limitPrice m) = rank (limitPrice (top_from y ys))
             \<longrightarrow> timestamp (top_from y ys) \<le> timestamp m)"
      by auto
    with IH True show ?thesis by simp
  next
    case False
    with ty have ge: "rank (limitPrice m) < rank (limitPrice y)
        \<or> (rank (limitPrice m) = rank (limitPrice y) \<and> timestamp m \<le> timestamp y)"
      by (auto simp: operator_less_sell)
    from IH False have "rank (limitPrice (top_from m ys)) \<le> rank (limitPrice m)
        \<and> (rank (limitPrice m) = rank (limitPrice (top_from m ys))
             \<longrightarrow> timestamp (top_from m ys) \<le> timestamp m)"
      by simp
    with ge have "rank (limitPrice (top_from m ys)) \<le> rank (limitPrice y)
        \<and> (rank (limitPrice y) = rank (limitPrice (top_from m ys))
             \<longrightarrow> timestamp (top_from m ys) \<le> timestamp y)"
      by auto
    with IH False show ?thesis by simp
  qed
qed

lemma top_pq_buy:
  assumes "\<forall>x\<in>set q. type x = CHR ''B'' \<and> limitPrice x \<noteq> NaN"
    and "top_pq q = Some t" and "x \<in> set q"
  shows "le_double (limitPrice x) (limitPrice t)
         \<and> (limitPrice x = limitPrice t \<longrightarrow> timestamp t \<le> timestamp x)"
proof (cases q)
  case Nil
  with assms show ?thesis by simp
next
  case (Cons m ys)
  from assms(2) have "t \<in> set q" by (rule top_pq_mem)
  with assms have n: "limitPrice x \<noteq> NaN" "limitPrice t \<noteq> NaN" by simp_all
  from Cons assms top_from_buy [of m ys]
  have "rank (limitPrice x) \<le> rank (limitPrice t)
        \<and> (rank (limitPrice x) = rank (limitPrice t) \<longrightarrow> timestamp t \<le> timestamp x)"
    by auto
  with n show ?thesis by (simp add: le_double_rank rank_eq_iff)
qed

lemma top_pq_sell:
  assumes "\<forall>x\<in>set q. type x \<noteq> CHR ''B'' \<and> limitPrice x \<noteq> NaN"
    and "top_pq q = Some t" and "x \<in> set q"
  shows "le_double (limitPrice t) (limitPrice x)
         \<and> (limitPrice x = limitPrice t \<longrightarrow> timestamp t \<le> timestamp x)"
proof (cases q)
  case Nil
  with assms show ?thesis by simp
next
  case (Cons m ys)
  from assms(2) have "t \<in> set q" by (rule top_pq_mem)
  with assms have n: "limitPrice x \<noteq> NaN" "limitPrice t \<noteq> NaN" by simp_all
  from Cons assms top_from_sell [of m ys]
  have "rank (limitPrice t) \<le> rank (limitPrice x)
        \<and> (rank (limitPrice x) = rank (limitPrice t) \<longrightarrow> timestamp t \<le> timestamp x)"
    by auto
  with n show ?thesis by (simp add: le_double_rank rank_eq_iff)
qed

text \<open>
  Claim C6 says that the top of the sell queue has the lowest limit price and the top
  of the buy queue the highest. \<^verbatim>\<open>std::stod\<close> turns the price token \<^verbatim>\<open>nan\<close> into
  NaN, against which every \<^verbatim>\<open><\<close> and \<^verbatim>\<open>>\<close> of \<^verbatim>\<open>operator<\<close> is false: after
  the lines \<^verbatim>\<open>N1 S 5 nan\<close> and \<^verbatim>\<open>S2 S 5 100\<close> the order with price NaN stays
  on top of the sell queue, and its price is not the lowest: it is not less than or
  equal to 100.
\<close>

theorem nan_ask_counterexample:
  "process_lines (new_OrderBook (Finite 100)) 0 nan_sell_lines
     = Inr ([], \<lparr>buyOrders = [], sellOrders = [nan_sell, sell_100],
                 lastTradedPrice = Finite 100\<rparr>)
   \<and> type nan_sell \<noteq> CHR ''B'' \<and> type sell_100 \<noteq> CHR ''B''
   \<and> \<not> operator_less nan_sell sell_100
   \<and> top_pq [nan_sell, sell_100] = Some nan_sell
   \<and> limitPrice sell_100 = Finite 100
   \<and> \<not> le_double (limitPrice nan_sell) (limitPrice sell_100)"
  by (simp add: nan_defs parseOrder_def submit_def addOrder_def new_OrderBook_def
      push_pq_def matchOrders.simps sweep_step_def operator_less_def ne_double_def
      greater_double_def le_double_def ge_double_def)

text \<open>
  Claim C6 as amended. In a queue of buy orders (all of type \<^verbatim>\<open>'B'\<close>) without a
  NaN price the top has the highest limit price, and among the orders with that price
  the lowest timestamp; in a queue of sell orders without a NaN price the top has the
  lowest limit price, and among the orders with that price the lowest timestamp.
  \<^verbatim>\<open>parseOrder\<close> gives a line without a price token \<^verbatim>\<open>isMarketOrder = true\<close> and
  \<^verbatim>\<open>limitPrice = 0\<close>. So in such a queue of buy orders a market order with limit
  price 0 is not the top when an order with a positive limit price rests there. The
  queues of every book that the program reaches hold the orders of one side only
  (lemma \<open>reachable_book_invariant\<close>).
\<close>

theorem price_time_priority:
  "((\<forall>x\<in>set q. type x = CHR ''B'' \<and> limitPrice x \<noteq> NaN) \<and> top_pq q = Some t \<longrightarrow>
      t \<in> set q
      \<and> (\<forall>x\<in>set q. le_double (limitPrice x) (limitPrice t)
            \<and> (limitPrice x = limitPrice t \<longrightarrow> timestamp t \<le> timestamp x)))
   \<and> ((\<forall>x\<in>set q. type x \<noteq> CHR ''B'' \<and> limitPrice x \<noteq> NaN) \<and> top_pq q = Some t \<longrightarrow>
      t \<in> set q
      \<and> (\<forall>x\<in>set q. le_double (limitPrice t) (limitPrice x)
            \<and> (limitPrice x = limitPrice t \<longrightarrow> timestamp t \<le> timestamp x)))
   \<and> (line_price line = No_token \<longrightarrow>
        (\<exists>m. parseOrder line ts = Inr m \<and> isMarketOrder m \<and> limitPrice m = Finite 0))
   \<and> ((\<forall>x\<in>set q. type x = CHR ''B'' \<and> limitPrice x \<noteq> NaN)
        \<and> m \<in> set q \<and> isMarketOrder m \<and> limitPrice m = Finite 0
        \<and> l \<in> set q \<and> less_double (Finite 0) (limitPrice l) \<longrightarrow> top_pq q \<noteq> Some m)"
proof (intro conjI impI)
  assume "(\<forall>x\<in>set q. type x = CHR ''B'' \<and> limitPrice x \<noteq> NaN) \<and> top_pq q = Some t"
  then show "t \<in> set q" by (simp add: top_pq_mem)
next
  assume "(\<forall>x\<in>set q. type x = CHR ''B'' \<and> limitPrice x \<noteq> NaN) \<and> top_pq q = Some t"
  then show "\<forall>x\<in>set q. le_double (limitPrice x) (limitPrice t)
            \<and> (limitPrice x = limitPrice t \<longrightarrow> timestamp t \<le> timestamp x)"
    using top_pq_buy [of q t] by blast
next
  assume "(\<forall>x\<in>set q. type x \<noteq> CHR ''B'' \<and> limitPrice x \<noteq> NaN) \<and> top_pq q = Some t"
  then show "t \<in> set q" by (simp add: top_pq_mem)
next
  assume "(\<forall>x\<in>set q. type x \<noteq> CHR ''B'' \<and> limitPrice x \<noteq> NaN) \<and> top_pq q = Some t"
  then show "\<forall>x\<in>set q. le_double (limitPrice t) (limitPrice x)
            \<and> (limitPrice x = limitPrice t \<longrightarrow> timestamp t \<le> timestamp x)"
    using top_pq_sell [of q t] by blast
next
  assume "line_price line = No_token"
  then show "\<exists>m. parseOrder line ts = Inr m \<and> isMarketOrder m \<and> limitPrice m = Finite 0"
    by (simp add: parseOrder_def)
next
  assume a: "(\<forall>x\<in>set q. type x = CHR ''B'' \<and> limitPrice x \<noteq> NaN)
        \<and> m \<in> set q \<and> isMarketOrder m \<and> limitPrice m = Finite 0
        \<and> l \<in> set q \<and> less_double (Finite 0) (limitPrice l)"
  show "top_pq q \<noteq> Some m"
  proof
    assume "top_pq q = Some m"
    with a top_pq_buy [of q m l] have "le_double (limitPrice l) (limitPrice m)" by blast
    with a show False by (simp add: le_double_def ge_double_def)
  qed
qed

theorem price_time_priority_witness:
  "parseOrder market_buy_line 1 = Inr market_buy
   \<and> limitPrice market_buy \<noteq> NaN \<and> limitPrice O4 \<noteq> NaN
   \<and> top_pq [market_buy, O4] = Some O4
   \<and> top_pq [market_buy, O4] \<noteq> Some market_buy
   \<and> le_double (limitPrice market_buy) (limitPrice O4)"
  using price_time_priority [of "[market_buy, O4]" O4 market_buy_line 1 market_buy O4]
  by (simp add: example_defs parseOrder_def operator_less_def ne_double_def)

text \<open>
  Claim C9 says that a resting market sell order is the best of the sell orders when
  all resting limit sells have a positive limit price. That fails for a market sell
  that rests behind an earlier market sell: after the three lines \<open>sell_lines\<close> the
  sell queue holds a limit order at 105 and two market orders, and its top is the
  market order that arrived first, not the one that arrived last.
\<close>

theorem later_market_sell_counterexample:
  "process_lines (new_OrderBook (Finite 100)) 0 sell_lines
     = Inr ([], \<lparr>buyOrders = [], sellOrders = [limit_sell_1, market_sell_2, market_sell_3],
                 lastTradedPrice = Finite 100\<rparr>)
   \<and> \<not> isMarketOrder limit_sell_1 \<and> less_double (Finite 0) (limitPrice limit_sell_1)
   \<and> isMarketOrder market_sell_3 \<and> limitPrice market_sell_3 = Finite 0
   \<and> top_pq [limit_sell_1, market_sell_2, market_sell_3] = Some market_sell_2
   \<and> top_pq [limit_sell_1, market_sell_2, market_sell_3] \<noteq> Some market_sell_3"
  by (simp add: sell_defs parseOrder_def submit_def addOrder_def new_OrderBook_def
      push_pq_def matchOrders.simps sweep_step_def operator_less_def ne_double_def
      greater_double_def)

text \<open>
  Claim C9 as amended. In a queue of sell orders in which the market orders have limit
  price 0 and the limit orders have a positive limit price, and in which a market
  order \<open>m\<close> rests, the top is a market order, and \<open>m\<close> is ranked above every limit
  order of the queue. Among several market orders the timestamp decides, as everywhere
  in the queue: the top arrived no later than \<open>m\<close>, and it is \<open>m\<close> itself when every
  other market order has a higher timestamp. The first two hypotheses hold of the sell
  queue of every book that the program reaches (lemma \<open>reachable_book_invariant\<close>).
\<close>

theorem market_sell_ranked_first:
  assumes sells: "\<forall>x\<in>set q. type x \<noteq> CHR ''B''"
    and market_zero: "\<forall>x\<in>set q. isMarketOrder x \<longrightarrow> limitPrice x = Finite 0"
    and limit_positive:
      "\<forall>x\<in>set q. \<not> isMarketOrder x \<longrightarrow> less_double (Finite 0) (limitPrice x)"
    and m: "m \<in> set q" "isMarketOrder m"
  shows "\<exists>t. top_pq q = Some t \<and> isMarketOrder t \<and> limitPrice t = Finite 0
           \<and> timestamp t \<le> timestamp m
           \<and> (\<forall>l\<in>set q. \<not> isMarketOrder l \<longrightarrow> operator_less l m \<and> t \<noteq> l)
           \<and> ((\<forall>x\<in>set q. isMarketOrder x \<and> x \<noteq> m \<longrightarrow> timestamp m < timestamp x)
                \<longrightarrow> t = m)"
proof -
  have numbers: "\<forall>x\<in>set q. type x \<noteq> CHR ''B'' \<and> limitPrice x \<noteq> NaN"
  proof
    fix x assume x: "x \<in> set q"
    show "type x \<noteq> CHR ''B'' \<and> limitPrice x \<noteq> NaN"
    proof (cases "isMarketOrder x")
      case True
      with x market_zero sells show ?thesis by simp
    next
      case False
      with x limit_positive have "less_double (Finite 0) (limitPrice x)" by simp
      then have "limitPrice x \<noteq> NaN" by (simp add: less_double_not_NaN)
      with x sells show ?thesis by simp
    qed
  qed
  from m obtain t where t: "top_pq q = Some t"
    by (cases q) auto
  then have tq: "t \<in> set q" by (rule top_pq_mem)
  from m market_zero have m0: "limitPrice m = Finite 0" by simp
  from top_pq_sell [OF numbers t m(1)] m0
  have le: "le_double (limitPrice t) (Finite 0)"
    and tie: "limitPrice t = Finite 0 \<longrightarrow> timestamp t \<le> timestamp m"
    by auto
  have tm: "isMarketOrder t"
  proof (rule ccontr)
    assume "\<not> isMarketOrder t"
    with limit_positive tq have "less_double (Finite 0) (limitPrice t)" by simp
    with le show False by (simp add: le_double_def ge_double_def)
  qed
  with market_zero tq have t0: "limitPrice t = Finite 0" by simp
  with tie have ts: "timestamp t \<le> timestamp m" by simp
  have below: "\<forall>l\<in>set q. \<not> isMarketOrder l \<longrightarrow> operator_less l m \<and> t \<noteq> l"
  proof (intro ballI impI)
    fix l assume l: "l \<in> set q" "\<not> isMarketOrder l"
    with limit_positive have pos: "less_double (Finite 0) (limitPrice l)" by simp
    then have "limitPrice l \<noteq> Finite 0" by auto
    moreover from l sells have "type l \<noteq> CHR ''B''" by simp
    ultimately show "operator_less l m \<and> t \<noteq> l"
      using m0 tm l pos
      by (auto simp: operator_less_def ne_double_def greater_double_def)
  qed
  have "t = m" if "\<forall>x\<in>set q. isMarketOrder x \<and> x \<noteq> m \<longrightarrow> timestamp m < timestamp x"
    using that tq tm ts by fastforce
  with t tm t0 ts below show ?thesis by blast
qed

theorem market_sell_ranked_first_witness:
  "top_pq [limit_sell_1, market_sell_2, market_sell_3] = Some market_sell_2
   \<and> isMarketOrder market_sell_2 \<and> limitPrice market_sell_2 = Finite 0
   \<and> less_double (Finite 0) (limitPrice limit_sell_1)
   \<and> operator_less limit_sell_1 market_sell_2
   \<and> timestamp market_sell_2 < timestamp market_sell_3"
  using market_sell_ranked_first
    [of "[limit_sell_1, market_sell_2, market_sell_3]" market_sell_2]
  by (simp add: sell_defs operator_less_def ne_double_def greater_double_def)

section \<open>The report of the unexecuted orders\<close>

lemma drain_buys_frame:
  "book (drain_buys s) = book s \<and> remainingSellOrders (drain_buys s) = remainingSellOrders s"
proof (induction s rule: drain_buys.induct)
  case (1 s)
  show ?case
  proof (cases "top_pq (remainingBuyOrders s)")
    case None
    then show ?thesis by (simp add: drain_buys.simps [of s])
  next
    case (Some t)
    with "1.IH" [OF Some] show ?thesis by (simp add: drain_buys.simps [of s])
  qed
qed

lemma drain_buys_empty: "remainingBuyOrders (drain_buys s) = []"
proof (induction s rule: drain_buys.induct)
  case (1 s)
  show ?case
  proof (cases "top_pq (remainingBuyOrders s)")
    case None
    then show ?thesis by (simp add: drain_buys.simps [of s] top_pq_None_iff)
  next
    case (Some t)
    with "1.IH" [OF Some] show ?thesis by (simp add: drain_buys.simps [of s])
  qed
qed

lemma drain_buys_mset:
  "mset (unexecutedOrders (drain_buys s))
     = mset (unexecutedOrders s) + mset (remainingBuyOrders s)"
proof (induction s rule: drain_buys.induct)
  case (1 s)
  show ?case
  proof (cases "top_pq (remainingBuyOrders s)")
    case None
    then show ?thesis by (simp add: drain_buys.simps [of s] top_pq_None_iff)
  next
    case (Some t)
    with "1.IH" [OF Some] mset_pop_pq [OF Some] show ?thesis
      by (simp add: drain_buys.simps [of s])
  qed
qed

lemma drain_sells_frame:
  "book (drain_sells s) = book s \<and> remainingBuyOrders (drain_sells s) = remainingBuyOrders s"
proof (induction s rule: drain_sells.induct)
  case (1 s)
  show ?case
  proof (cases "top_pq (remainingSellOrders s)")
    case None
    then show ?thesis by (simp add: drain_sells.simps [of s])
  next
    case (Some t)
    with "1.IH" [OF Some] show ?thesis by (simp add: drain_sells.simps [of s])
  qed
qed

lemma drain_sells_empty: "remainingSellOrders (drain_sells s) = []"
proof (induction s rule: drain_sells.induct)
  case (1 s)
  show ?case
  proof (cases "top_pq (remainingSellOrders s)")
    case None
    then show ?thesis by (simp add: drain_sells.simps [of s] top_pq_None_iff)
  next
    case (Some t)
    with "1.IH" [OF Some] show ?thesis by (simp add: drain_sells.simps [of s])
  qed
qed

lemma drain_sells_mset:
  "mset (unexecutedOrders (drain_sells s))
     = mset (unexecutedOrders s) + mset (remainingSellOrders s)"
proof (induction s rule: drain_sells.induct)
  case (1 s)
  show ?case
  proof (cases "top_pq (remainingSellOrders s)")
    case None
    then show ?thesis by (simp add: drain_sells.simps [of s] top_pq_None_iff)
  next
    case (Some t)
    with "1.IH" [OF Some] mset_pop_pq [OF Some] show ?thesis
      by (simp add: drain_sells.simps [of s])
  qed
qed

lemma collect_unexecuted_mset:
  "mset (unexecutedOrders (collect_unexecuted bk)) = mset (buyOrders bk) + mset (sellOrders bk)"
  by (simp add: collect_unexecuted_def Let_def drain_sells_mset drain_buys_mset drain_buys_frame)

lemma report_resting_book:
  "writeUnexecutedOrders resting_book
     = (resting_book, [Unexecuted ''O3'' 5, Unexecuted ''O4'' 7])"
  by (simp add: writeUnexecutedOrders_def collect_unexecuted_def unexecuted_line_def
      drain_buys.simps drain_sells.simps pop_pq_def example_defs)

text \<open>
  Claim C7. The lines of the report are the unexecuted lines (id and remaining
  quantity) of the orders of a list that holds exactly the orders resting in the two
  queues, each as often as it rests there, and that is sorted by timestamp in
  non-decreasing order; so there are as many lines as resting orders.
\<close>

theorem unexecuted_report_sorted:
  "snd (writeUnexecutedOrders bk) = map unexecuted_line (unexecutedOrders (collect_unexecuted bk))
   \<and> mset (unexecutedOrders (collect_unexecuted bk)) = mset (buyOrders bk) + mset (sellOrders bk)
   \<and> sorted (map timestamp (unexecutedOrders (collect_unexecuted bk)))
   \<and> length (snd (writeUnexecutedOrders bk)) = length (buyOrders bk) + length (sellOrders bk)"
proof -
  have m: "mset (unexecutedOrders (collect_unexecuted bk)) = mset (buyOrders bk) + mset (sellOrders bk)"
    by (rule collect_unexecuted_mset)
  have s: "sorted (map timestamp (unexecutedOrders (collect_unexecuted bk)))"
    by (simp add: collect_unexecuted_def Let_def)
  have "size (mset (unexecutedOrders (collect_unexecuted bk))) = size (mset (buyOrders bk) + mset (sellOrders bk))"
    by (simp only: m)
  then have l: "length (unexecutedOrders (collect_unexecuted bk)) = length (buyOrders bk) + length (sellOrders bk)"
    by simp
  from m s l show ?thesis
    by (simp add: writeUnexecutedOrders_def Let_def)
qed

theorem unexecuted_report_sorted_witness:
  "snd (writeUnexecutedOrders resting_book) = [Unexecuted ''O3'' 5, Unexecuted ''O4'' 7]
   \<and> length (snd (writeUnexecutedOrders resting_book)) = 2"
proof -
  from unexecuted_report_sorted [of resting_book]
  have "length (snd (writeUnexecutedOrders resting_book))
          = length (buyOrders resting_book) + length (sellOrders resting_book)"
    by blast
  then have "length (snd (writeUnexecutedOrders resting_book)) = 2"
    by (simp add: resting_book_def)
  with report_resting_book show ?thesis by simp
qed

text \<open>
  Claim C10. \<^verbatim>\<open>writeUnexecutedOrders\<close> returns the book as it was: both queues and
  \<^verbatim>\<open>lastTradedPrice\<close>. What its two loops empty are the local copies of the queues.
\<close>

theorem report_leaves_book_unchanged:
  "fst (writeUnexecutedOrders bk) = bk
   \<and> buyOrders (fst (writeUnexecutedOrders bk)) = buyOrders bk
   \<and> sellOrders (fst (writeUnexecutedOrders bk)) = sellOrders bk
   \<and> lastTradedPrice (fst (writeUnexecutedOrders bk)) = lastTradedPrice bk
   \<and> remainingBuyOrders (collect_unexecuted bk) = []
   \<and> remainingSellOrders (collect_unexecuted bk) = []"
  by (simp add: writeUnexecutedOrders_def collect_unexecuted_def Let_def
      drain_sells_frame drain_buys_frame drain_buys_empty drain_sells_empty)

theorem report_leaves_book_unchanged_witness:
  "fst (writeUnexecutedOrders resting_book) = resting_book
   \<and> buyOrders (fst (writeUnexecutedOrders resting_book)) = [O4]
   \<and> sellOrders (fst (writeUnexecutedOrders resting_book)) = [O3]"
  using report_leaves_book_unchanged [of resting_book]
  by (simp add: resting_book_def)

section \<open>Conservation of the shares\<close>

lemma sum_list_pop_pq:
  assumes "top_pq q = Some t"
  shows "sum_list (map f (pop_pq q)) + f t = sum_list (map (f :: Order \<Rightarrow> int) q)"
proof -
  from assms have "t \<in> set q" by (rule top_pq_mem)
  then have "sum_list (map f q) = f t + sum_list (map f (remove1 t q))"
    by (rule sum_list_map_remove1)
  with assms show ?thesis by (simp add: pop_pq_def)
qed

lemma traded_quantity_append [simp]:
  "traded_quantity i (xs @ ys) = traded_quantity i xs + traded_quantity i ys"
  by (simp add: traded_quantity_def)

lemma unexecuted_quantity_append [simp]:
  "unexecuted_quantity i (xs @ ys) = unexecuted_quantity i xs + unexecuted_quantity i ys"
  by (simp add: unexecuted_quantity_def)

lemma unexecuted_lines_append [simp]:
  "unexecuted_lines i (xs @ ys) = unexecuted_lines i xs + unexecuted_lines i ys"
  by (simp add: unexecuted_lines_def)

lemma execute_pair_conservation:
  assumes inv: "nonneg_book bk"
    and B: "top_pq (buyOrders bk) = Some B" and A: "top_pq (sellOrders bk) = Some A"
    and ex: "execute_pair bk B A = (out, bk')"
  shows "traded_quantity i out + resting_quantity i bk' = resting_quantity i bk"
proof -
  let ?t = "min_int32 (quantity B) (quantity A)"
  note dB = execute_pair_nonneg(3) [OF inv B A ex]
  note dA = execute_pair_nonneg(4) [OF inv B A ex]
  have le: "sint ?t \<le> sint (quantity B)" "sint ?t \<le> sint (quantity A)"
    by (simp_all add: sint_min_int32)
  have b: "sum_list (map (quantity_of i) (pop_pq (buyOrders bk))) + quantity_of i B
             = sum_list (map (quantity_of i) (buyOrders bk))"
    using B by (rule sum_list_pop_pq)
  have a: "sum_list (map (quantity_of i) (pop_pq (sellOrders bk))) + quantity_of i A
             = sum_list (map (quantity_of i) (sellOrders bk))"
    using A by (rule sum_list_pop_pq)
  have out: "traded_quantity i out
      = (if id_order B = i then sint ?t else 0) + (if id_order A = i then sint ?t else 0)"
    using ex by (auto simp: execute_pair_def Let_def traded_quantity_def)
  have buys: "sum_list (map (quantity_of i) (buyOrders bk'))
      = sum_list (map (quantity_of i) (pop_pq (buyOrders bk)))
        + (if id_order B = i then sint (quantity B) - sint ?t else 0)"
    using ex le(1) dB
    by (auto simp: execute_pair_def Let_def push_pq_def quantity_of_def)
  have sells: "sum_list (map (quantity_of i) (sellOrders bk'))
      = sum_list (map (quantity_of i) (pop_pq (sellOrders bk)))
        + (if id_order A = i then sint (quantity A) - sint ?t else 0)"
    using ex le(2) dA
    by (auto simp: execute_pair_def Let_def push_pq_def quantity_of_def)
  from out buys sells a b show ?thesis
    by (cases "id_order B = i"; cases "id_order A = i")
       (simp_all add: resting_quantity_def quantity_of_def)
qed

lemma execute_pair_report:
  assumes "execute_pair bk B A = (out, bk')"
  shows "unexecuted_quantity i out = 0 \<and> unexecuted_lines i out = 0"
  using assms
  by (auto simp: execute_pair_def Let_def unexecuted_quantity_def unexecuted_lines_def)

lemma sweep_step_conservation:
  assumes "nonneg_book bk" and "sweep_step bk = Some (out, bk')"
  shows "traded_quantity i out + resting_quantity i bk' = resting_quantity i bk"
    and "unexecuted_quantity i out = 0" and "unexecuted_lines i out = 0"
proof -
  from assms(2) obtain B A where B: "top_pq (buyOrders bk) = Some B"
    and A: "top_pq (sellOrders bk) = Some A" and ex: "execute_pair bk B A = (out, bk')"
    by (rule sweep_step_tops)
  from assms(1) B A ex
  show "traded_quantity i out + resting_quantity i bk' = resting_quantity i bk"
    by (rule execute_pair_conservation)
  from ex show "unexecuted_quantity i out = 0" "unexecuted_lines i out = 0"
    by (simp_all add: execute_pair_report)
qed

lemma sweep_step_nonneg:
  assumes "nonneg_book bk" and "sweep_step bk = Some (out, bk')"
  shows "nonneg_book bk'"
proof -
  from assms(2) obtain B A where B: "top_pq (buyOrders bk) = Some B"
    and A: "top_pq (sellOrders bk) = Some A" and ex: "execute_pair bk B A = (out, bk')"
    by (rule sweep_step_tops)
  from assms(1) B A ex show ?thesis
    by (rule execute_pair_nonneg(1))
qed

lemma matchOrders_conservation:
  "nonneg_book bk \<Longrightarrow>
   traded_quantity i (fst (matchOrders bk)) + resting_quantity i (snd (matchOrders bk))
     = resting_quantity i bk
   \<and> unexecuted_quantity i (fst (matchOrders bk)) = 0
   \<and> unexecuted_lines i (fst (matchOrders bk)) = 0"
proof (induction bk rule: matchOrders.induct)
  case (1 bk)
  show ?case
  proof (cases "sweep_step bk")
    case None
    then show ?thesis
      by (simp add: matchOrders.simps [of bk] traded_quantity_def unexecuted_quantity_def
          unexecuted_lines_def)
  next
    case (Some r)
    obtain out bk' where r: "r = (out, bk')" by (cases r)
    with Some have step: "sweep_step bk = Some (out, bk')" by simp
    have m: "matchOrders bk = (out @ fst (matchOrders bk'), snd (matchOrders bk'))"
      using step by (simp add: matchOrders.simps [of bk] split: prod.splits)
    note s = sweep_step_conservation [OF "1.prems" step, where i = i]
    note n = sweep_step_nonneg [OF "1.prems" step]
    from "1.IH" [OF step refl n] s m
    show ?thesis by simp
  qed
qed

lemma parseOrder_fields:
  assumes "parseOrder line ts = Inr ord"
  shows "id_order ord = line_id line \<and> quantity ord = line_quantity line
         \<and> type ord = line_type line \<and> timestamp ord = ts"
  using assms by (auto simp: parseOrder_def split: price_token.splits)

lemma addOrder_resting_quantity:
  "resting_quantity i (addOrder bk ord) = resting_quantity i bk + quantity_of i ord"
  by (simp add: addOrder_def resting_quantity_def push_pq_def)

lemma submit_conservation:
  assumes "submit bk ord = (out, bk')" and "nonneg_book bk" and "0 \<le> sint (quantity ord)"
  shows "traded_quantity i out + resting_quantity i bk' = resting_quantity i bk + quantity_of i ord
         \<and> unexecuted_quantity i out = 0 \<and> unexecuted_lines i out = 0"
proof -
  from assms(2,3) have n: "nonneg_book (addOrder bk ord)"
    by (rule addOrder_nonneg)
  from assms(1) matchOrders_conservation [OF n, of i]
  show ?thesis
    by (simp add: submit_def addOrder_resting_quantity)
qed

lemma submit_nonneg:
  assumes "submit bk ord = (out, bk')" and "nonneg_book bk" and "0 \<le> sint (quantity ord)"
  shows "nonneg_book bk'"
proof -
  from assms(2,3) have n: "nonneg_book (addOrder bk ord)"
    by (rule addOrder_nonneg)
  from assms(1) matchOrders_nonneg [OF n] show ?thesis
    by (simp add: submit_def)
qed

lemma process_lines_conservation:
  assumes "process_lines bk ts lines = Inr (out, bk')"
    and "nonneg_book bk" and "\<forall>x\<in>set lines. 0 \<le> sint (line_quantity x)"
  shows "traded_quantity i out + resting_quantity i bk'
           = resting_quantity i bk + submitted_quantity i lines
         \<and> unexecuted_quantity i out = 0 \<and> unexecuted_lines i out = 0"
  using assms
proof (induction lines arbitrary: bk ts out bk')
  case Nil
  then show ?case
    by (simp add: traded_quantity_def unexecuted_quantity_def unexecuted_lines_def
        submitted_quantity_def)
next
  case (Cons line rest)
  from Cons.prems(1) obtain ord where p: "parseOrder line (ts + 1) = Inr ord"
    by (auto split: sum.splits)
  obtain o1 bk1 where s: "submit bk ord = (o1, bk1)"
    by (cases "submit bk ord")
  from Cons.prems(1) p s obtain o2 where r: "process_lines bk1 (ts + 1) rest = Inr (o2, bk')"
    and out: "out = o1 @ o2"
    by (auto split: sum.splits prod.splits)
  from parseOrder_fields [OF p]
  have q: "quantity_of i ord = (if line_id line = i then sint (line_quantity line) else 0)"
    and qo: "quantity ord = line_quantity line"
    by (simp_all add: quantity_of_def)
  from Cons.prems(3) qo have n: "0 \<le> sint (quantity ord)" by simp
  from Cons.prems(3) have rest: "\<forall>x\<in>set rest. 0 \<le> sint (line_quantity x)" by simp
  note sc = submit_conservation [OF s Cons.prems(2) n, of i]
  note sn = submit_nonneg [OF s Cons.prems(2) n]
  from Cons.IH [OF r sn rest] sc q out show ?case
    by (simp add: submitted_quantity_def)
qed

lemma report_lines:
  "traded_quantity i (map unexecuted_line xs) = 0
   \<and> unexecuted_quantity i (map unexecuted_line xs) = sum_list (map (quantity_of i) xs)
   \<and> unexecuted_lines i (map unexecuted_line xs) = count (mset (map id_order xs)) i"
  by (induction xs)
     (simp_all add: traded_quantity_def unexecuted_quantity_def unexecuted_lines_def
        unexecuted_line_def quantity_of_def)

lemma sum_list_map_mset:
  assumes "mset xs = mset ys"
  shows "sum_list (map (f :: 'a \<Rightarrow> int) xs) = sum_list (map f ys)"
proof -
  from assms have "mset (map f xs) = mset (map f ys)" by simp
  then have "sum_mset (mset (map f xs)) = sum_mset (mset (map f ys))" by (simp only:)
  then show ?thesis by (simp only: sum_mset_sum_list)
qed

lemma report_conservation:
  "traded_quantity i (snd (writeUnexecutedOrders bk)) = 0
   \<and> unexecuted_quantity i (snd (writeUnexecutedOrders bk)) = resting_quantity i bk
   \<and> unexecuted_lines i (snd (writeUnexecutedOrders bk)) = count (resting_ids bk) i"
proof -
  let ?xs = "unexecutedOrders (collect_unexecuted bk)"
  have m: "mset ?xs = mset (buyOrders bk @ sellOrders bk)"
    by (simp add: collect_unexecuted_mset)
  then have "sum_list (map (quantity_of i) ?xs)
               = sum_list (map (quantity_of i) (buyOrders bk @ sellOrders bk))"
    by (rule sum_list_map_mset)
  then have q: "sum_list (map (quantity_of i) ?xs) = resting_quantity i bk"
    by (simp add: resting_quantity_def)
  from m have "mset (map id_order ?xs) = mset (map id_order (buyOrders bk @ sellOrders bk))"
    by simp
  then have c: "count (mset (map id_order ?xs)) i = count (resting_ids bk) i"
    by (simp add: resting_ids_def)
  from report_lines [of i ?xs] q c show ?thesis
    by (simp add: writeUnexecutedOrders_def Let_def)
qed

lemma mset_ids_pop_pq:
  assumes "top_pq q = Some t"
  shows "mset (map id_order q) = add_mset (id_order t) (mset (map id_order (pop_pq q)))"
proof -
  from assms have "mset q = add_mset t (mset (pop_pq q))" by (rule mset_pop_pq)
  then have "image_mset id_order (mset q) = image_mset id_order (add_mset t (mset (pop_pq q)))"
    by (simp only:)
  then show ?thesis by simp
qed

lemma execute_pair_ids:
  assumes B: "top_pq (buyOrders bk) = Some B" and A: "top_pq (sellOrders bk) = Some A"
    and ex: "execute_pair bk B A = (out, bk')"
  shows "resting_ids bk' \<subseteq># resting_ids bk"
proof -
  have b: "mset (map id_order (buyOrders bk'))
             \<subseteq># add_mset (id_order B) (mset (map id_order (pop_pq (buyOrders bk))))"
    using ex by (auto simp: execute_pair_def Let_def push_pq_def)
  have a: "mset (map id_order (sellOrders bk'))
             \<subseteq># add_mset (id_order A) (mset (map id_order (pop_pq (sellOrders bk))))"
    using ex by (auto simp: execute_pair_def Let_def push_pq_def)
  from b a have "mset (map id_order (buyOrders bk')) + mset (map id_order (sellOrders bk'))
      \<subseteq># add_mset (id_order B) (mset (map id_order (pop_pq (buyOrders bk))))
         + add_mset (id_order A) (mset (map id_order (pop_pq (sellOrders bk))))"
    by (rule subset_mset.add_mono)
  then show ?thesis
    by (simp only: resting_ids_def mset_ids_pop_pq [OF B] mset_ids_pop_pq [OF A])
qed

lemma matchOrders_ids: "resting_ids (snd (matchOrders bk)) \<subseteq># resting_ids bk"
proof (induction bk rule: matchOrders.induct)
  case (1 bk)
  show ?case
  proof (cases "sweep_step bk")
    case None
    then show ?thesis by (simp add: matchOrders.simps [of bk])
  next
    case (Some r)
    obtain out bk' where r: "r = (out, bk')" by (cases r)
    with Some have step: "sweep_step bk = Some (out, bk')" by simp
    have m: "snd (matchOrders bk) = snd (matchOrders bk')"
      using step by (simp add: matchOrders.simps [of bk] split: prod.splits)
    from step obtain B A where "top_pq (buyOrders bk) = Some B"
      and "top_pq (sellOrders bk) = Some A" and "execute_pair bk B A = (out, bk')"
      by (rule sweep_step_tops)
    then have "resting_ids bk' \<subseteq># resting_ids bk" by (rule execute_pair_ids)
    with "1.IH" [OF step refl] m show ?thesis
      by (simp add: subset_mset.order_trans)
  qed
qed

lemma addOrder_ids: "resting_ids (addOrder bk ord) = add_mset (id_order ord) (resting_ids bk)"
  by (simp add: addOrder_def resting_ids_def push_pq_def)

lemma process_lines_ids:
  assumes "process_lines bk ts lines = Inr (out, bk')"
  shows "resting_ids bk' \<subseteq># resting_ids bk + mset (map line_id lines)"
  using assms
proof (induction lines arbitrary: bk ts out bk')
  case Nil
  then show ?case by simp
next
  case (Cons line rest)
  from Cons.prems obtain ord where p: "parseOrder line (ts + 1) = Inr ord"
    by (auto split: sum.splits)
  obtain o1 bk1 where s: "submit bk ord = (o1, bk1)"
    by (cases "submit bk ord")
  from Cons.prems p s obtain o2 where r: "process_lines bk1 (ts + 1) rest = Inr (o2, bk')"
    by (auto split: sum.splits prod.splits)
  from s have "bk1 = snd (matchOrders (addOrder bk ord))"
    by (simp add: submit_def)
  with matchOrders_ids [of "addOrder bk ord"] parseOrder_fields [OF p]
  have "resting_ids bk1 \<subseteq># add_mset (line_id line) (resting_ids bk)"
    by (simp add: addOrder_ids)
  then have "resting_ids bk1 + mset (map line_id rest)
               \<subseteq># add_mset (line_id line) (resting_ids bk) + mset (map line_id rest)"
    by (simp only: subset_mset.add_right_mono)
  with Cons.IH [OF r] have "resting_ids bk' \<subseteq># add_mset (line_id line) (resting_ids bk) + mset (map line_id rest)"
    by (rule subset_mset.order_trans)
  then show ?case by simp
qed

lemma submitted_quantity_distinct:
  assumes "distinct (map line_id lines)" and "l \<in> set lines"
  shows "submitted_quantity (line_id l) lines = sint (line_quantity l)"
  using assms
proof (induction lines)
  case Nil
  then show ?case by simp
next
  case (Cons x xs)
  show ?case
  proof (cases "l = x")
    case True
    from Cons.prems have "line_id x \<notin> line_id ` set xs" by simp
    then have "\<forall>y\<in>set xs. line_id y \<noteq> line_id x" by (metis imageI)
    then have "sum_list (map (\<lambda>l. if line_id l = line_id x then sint (line_quantity l) else 0) xs) = 0"
      by (induction xs) auto
    with True show ?thesis by (simp add: submitted_quantity_def)
  next
    case False
    with Cons.prems have l: "l \<in> set xs" and d: "distinct (map line_id xs)"
      and "line_id x \<notin> line_id ` set xs"
      by simp_all
    then have "line_id x \<noteq> line_id l" by (metis imageI)
    note l d this
    with Cons.IH show ?thesis by (simp add: submitted_quantity_def)
  qed
qed

lemma run_example:
  "main (Finite 100) [line_O1, line_O2]
     = Inr [Purchased ''O1'' 5 (Finite 101), Sold ''O2'' 5 (Finite 101), Unexecuted ''O1'' 5]"
  by (simp add: main_def line_O1_def line_O2_def parseOrder_def submit_def
      addOrder_def new_OrderBook_def matchOrders.simps engine_defs
      writeUnexecutedOrders_def collect_unexecuted_def unexecuted_line_def
      drain_buys.simps drain_sells.simps)

lemma run_overflow:
  "main (Finite 100) [overflow_buy_line, overflow_sell_line]
     = Inr [Purchased ''B1'' (- 1) (Finite 100), Sold ''S1'' (- 1) (Finite 100),
            Unexecuted ''B1'' (- 2147483648)]"
  by (simp add: main_def overflow_buy_line_def overflow_sell_line_def parseOrder_def
      submit_def addOrder_def new_OrderBook_def matchOrders.simps engine_defs
      writeUnexecutedOrders_def collect_unexecuted_def unexecuted_line_def
      drain_buys.simps drain_sells.simps)

text \<open>
  Claim C4 says that for every order submitted with a positive quantity the shares
  traded under its id plus its quantity in the report are its submitted quantity. The
  code takes orders with a negative quantity too, and against one of them the
  subtraction of line 80 leaves the range of an \<^verbatim>\<open>int\<close>: after the lines
  \<^verbatim>\<open>B1 B 2147483647 100\<close> and \<^verbatim>\<open>S1 S -1 50\<close> the trade is over -1 shares, and
  \<^verbatim>\<open>B1\<close> is reported with -2147483648 shares unexecuted; the sum is -2147483649,
  not the 2147483647 that were submitted.
\<close>

theorem overflow_counterexample:
  "main (Finite 100) [overflow_buy_line, overflow_sell_line]
     = Inr [Purchased ''B1'' (- 1) (Finite 100), Sold ''S1'' (- 1) (Finite 100),
            Unexecuted ''B1'' (- 2147483648)]
   \<and> distinct (map line_id [overflow_buy_line, overflow_sell_line])
   \<and> line_id overflow_buy_line = ''B1''
   \<and> 0 < sint (line_quantity overflow_buy_line)
   \<and> sint (line_quantity overflow_buy_line) = 2147483647
   \<and> traded_quantity ''B1''
        [Purchased ''B1'' (- 1) (Finite 100), Sold ''S1'' (- 1) (Finite 100),
         Unexecuted ''B1'' (- 2147483648)]
       + unexecuted_quantity ''B1''
        [Purchased ''B1'' (- 1) (Finite 100), Sold ''S1'' (- 1) (Finite 100),
         Unexecuted ''B1'' (- 2147483648)]
       = - 2147483649
   \<and> traded_quantity ''B1''
        [Purchased ''B1'' (- 1) (Finite 100), Sold ''S1'' (- 1) (Finite 100),
         Unexecuted ''B1'' (- 2147483648)]
       + unexecuted_quantity ''B1''
        [Purchased ''B1'' (- 1) (Finite 100), Sold ''S1'' (- 1) (Finite 100),
         Unexecuted ''B1'' (- 2147483648)]
       \<noteq> sint (line_quantity overflow_buy_line)"
  using run_overflow
  by (simp add: overflow_buy_line_def overflow_sell_line_def traded_quantity_def
      unexecuted_quantity_def)

text \<open>
  Claim C4 as amended. When the program runs to its end on input lines with pairwise
  different ids and without a negative quantity, then for every line the shares traded
  under its id in the output, plus the shares that the report of unexecuted orders
  gives for its id, are the quantity submitted on the line; and the report has at most
  one line for the id, so the second term is the quantity of that line, or 0 when
  there is none.
\<close>

theorem shares_conserved:
  assumes run: "main initialPrice lines = Inr out"
    and ids: "distinct (map line_id lines)"
    and nonneg: "\<forall>x\<in>set lines. 0 \<le> sint (line_quantity x)"
    and l: "l \<in> set lines"
  shows "traded_quantity (line_id l) out + unexecuted_quantity (line_id l) out
           = sint (line_quantity l)
         \<and> unexecuted_lines (line_id l) out \<le> 1"
proof -
  let ?i = "line_id l"
  from run obtain o1 bk where p: "process_lines (new_OrderBook initialPrice) 0 lines = Inr (o1, bk)"
    and out: "out = o1 @ snd (writeUnexecutedOrders bk)"
    by (auto simp: main_def split: sum.splits prod.splits)
  have r0: "resting_quantity ?i (new_OrderBook initialPrice) = 0"
    "resting_ids (new_OrderBook initialPrice) = {#}"
    by (simp_all add: resting_quantity_def resting_ids_def new_OrderBook_def)
  have n0: "nonneg_book (new_OrderBook initialPrice)"
    by (simp add: nonneg_book_def new_OrderBook_def)
  from process_lines_conservation [OF p n0 nonneg, of ?i] r0
    submitted_quantity_distinct [OF ids l]
  have c: "traded_quantity ?i o1 + resting_quantity ?i bk = sint (line_quantity l)"
    and u: "unexecuted_quantity ?i o1 = 0" "unexecuted_lines ?i o1 = 0"
    by simp_all
  from process_lines_ids [OF p] r0 have "resting_ids bk \<subseteq># mset (map line_id lines)"
    by simp
  then have "count (resting_ids bk) ?i \<le> count (mset (map line_id lines)) ?i"
    by (rule mset_subset_eq_count)
  moreover from ids have "count (mset (map line_id lines)) ?i \<le> 1"
    by (simp add: distinct_count_atmost_1)
  ultimately have n: "count (resting_ids bk) ?i \<le> 1" by simp
  from c u n report_conservation [of ?i bk] out show ?thesis
    by simp
qed

theorem shares_conserved_witness:
  "main (Finite 100) [line_O1, line_O2]
     = Inr [Purchased ''O1'' 5 (Finite 101), Sold ''O2'' 5 (Finite 101), Unexecuted ''O1'' 5]
   \<and> distinct (map line_id [line_O1, line_O2])
   \<and> 0 \<le> sint (line_quantity line_O1) \<and> 0 \<le> sint (line_quantity line_O2)
   \<and> line_O1 \<in> set [line_O1, line_O2]
   \<and> traded_quantity ''O1''
        [Purchased ''O1'' 5 (Finite 101), Sold ''O2'' 5 (Finite 101), Unexecuted ''O1'' 5] = 5
   \<and> unexecuted_quantity ''O1''
        [Purchased ''O1'' 5 (Finite 101), Sold ''O2'' 5 (Finite 101), Unexecuted ''O1'' 5] = 5
   \<and> sint (line_quantity line_O1) = 10"
proof -
  have d: "distinct (map line_id [line_O1, line_O2])"
    by (simp add: line_O1_def line_O2_def)
  have q: "0 \<le> sint (line_quantity line_O1)" "0 \<le> sint (line_quantity line_O2)"
    by (simp_all add: line_O1_def line_O2_def)
  then have n: "\<forall>x\<in>set [line_O1, line_O2]. 0 \<le> sint (line_quantity x)"
    by simp
  have m: "line_O1 \<in> set [line_O1, line_O2]"
    by simp
  have t: "traded_quantity ''O1''
             [Purchased ''O1'' 5 (Finite 101), Sold ''O2'' 5 (Finite 101),
              Unexecuted ''O1'' 5] = 5"
    by (simp add: traded_quantity_def)
  from shares_conserved [OF run_example d n m] t
  have "unexecuted_quantity ''O1''
          [Purchased ''O1'' 5 (Finite 101), Sold ''O2'' 5 (Finite 101),
           Unexecuted ''O1'' 5] = 5
        \<and> sint (line_quantity line_O1) = 10"
    by (simp add: line_O1_def)
  with run_example d q m t show ?thesis by simp
qed

end
